theory Spec2Isabelle
  imports Complex_Main "HOL-Library.Log_Nat"
begin

section \<open>Data model\<close>

text \<open>
  Go's \<open>int\<close> has 64 bits and its arithmetic wraps around.  A value of type \<open>int\<close> is an
  integer of HOL; where a sum or a difference of the source can leave the 64-bit range
  it is written with \<open>add64\<close> and \<open>sub64\<close>.  That is the case in \<open>Circle.draw\<close>, whose
  radius and centre are not checked before they are added.  The rectangle and the triangle
  compute with coordinates that have passed the bounds check against the canvas, and
  every loop counter stays below a dimension of the canvas when it is incremented, so
  these are written with \<open>+\<close> and \<open>-\<close>.  A run-time panic (index out of range, slice
  bounds out of range, \<open>make\<close> with a negative length) is the value \<open>None\<close> of an option;
  a returned Go \<open>error\<close> is an \<open>error option\<close> with \<open>None\<close> for \<open>nil\<close>.
\<close>

definition wrap64 :: "int \<Rightarrow> int" where
  "wrap64 z = (z + 2 ^ 63) mod 2 ^ 64 - 2 ^ 63"

definition add64 :: "int \<Rightarrow> int \<Rightarrow> int" where
  "add64 a b = wrap64 (a + b)"

definition sub64 :: "int \<Rightarrow> int \<Rightarrow> int" where
  "sub64 a b = wrap64 (a - b)"

datatype RGB = RGB int int int

record Color =
  Name :: string

record Point =
  px :: int
  py :: int

datatype error = errOutOfBounds | invalidColor | fileError

definition ColorMap :: "string \<rightharpoonup> RGB" where
  "ColorMap = map_of
     [(''red'', RGB 255 0 0),
      (''green'', RGB 0 255 0),
      (''blue'', RGB 0 0 255),
      (''yellow'', RGB 255 255 0),
      (''orange'', RGB 255 164 0),
      (''purple'', RGB 128 0 128),
      (''brown'', RGB 165 42 42),
      (''black'', RGB 0 0 0),
      (''white'', RGB 255 255 255)]"

record Rectangle =
  rect_ll :: Point
  rect_ur :: Point
  rect_c :: Color

record Triangle =
  tri_pt0 :: Point
  tri_pt1 :: Point
  tri_pt2 :: Point
  tri_c :: Color

record Circle =
  circ_center :: Point
  circ_r :: int
  circ_c :: Color

record Display =
  maxX :: int
  maxY :: int
  matrix :: "Color list list"

text \<open>
  The \<open>screen\<close> interface, as far as the shapes use it: the two methods \<open>getMaxXY\<close> and
  \<open>drawPixel\<close>, over the state \<open>'s\<close> of whatever implements it.
\<close>

record 's screen =
  getMaxXY :: "'s \<Rightarrow> int \<times> int"
  drawPixel :: "'s \<Rightarrow> int \<Rightarrow> int \<Rightarrow> Color \<Rightarrow> (error option \<times> 's) option"

definition colorUnknown :: "Color \<Rightarrow> bool" where
  "colorUnknown c = (ColorMap (Name c) = None)"

definition outOfBounds :: "Point \<Rightarrow> 's screen \<Rightarrow> 's \<Rightarrow> bool" where
  "outOfBounds p scn s =
     (case getMaxXY scn s of (xMax, yMax) \<Rightarrow>
        px p < 0 \<or> px p \<ge> xMax \<or> py p < 0 \<or> py p \<ge> yMax)"

section \<open>The canvas\<close>

definition white :: Color where
  "white = \<lparr>Name = ''white''\<rparr>"

definition initialize :: "int \<Rightarrow> int \<Rightarrow> Display option" where
  "initialize x y =
     (if x < 0 then None
      else if 0 < x \<and> y < 0 then None
      else Some \<lparr>maxX = x, maxY = y, matrix = replicate (nat x) (replicate (nat y) white)\<rparr>)"

definition Display_getMaxXY :: "Display \<Rightarrow> int \<times> int" where
  "Display_getMaxXY d = (maxX d, maxY d)"

definition Display_drawPixel ::
  "Display \<Rightarrow> int \<Rightarrow> int \<Rightarrow> Color \<Rightarrow> (error option \<times> Display) option" where
  "Display_drawPixel d x y c =
     (if x < 0 \<or> y < 0 \<or> x \<ge> maxX d \<or> y \<ge> maxY d then Some (Some errOutOfBounds, d)
      else if colorUnknown c then Some (Some invalidColor, d)
      else if nat x < length (matrix d) \<and> nat y < length (matrix d ! nat x)
      then Some (None, d\<lparr>matrix := (matrix d)[nat x := (matrix d ! nat x)[nat y := c]]\<rparr>)
      else None)"

definition Display_getPixel :: "Display \<Rightarrow> int \<Rightarrow> int \<Rightarrow> (Color \<times> error option) option" where
  "Display_getPixel d x y =
     (if x < 0 \<or> y < 0 \<or> x \<ge> maxX d \<or> y \<ge> maxY d then Some (\<lparr>Name = ''''\<rparr>, Some errOutOfBounds)
      else if nat x < length (matrix d) \<and> nat y < length (matrix d ! nat x)
      then (let c = matrix d ! nat x ! nat y
            in if colorUnknown c then Some (c, Some invalidColor) else Some (c, None))
      else None)"

definition clearScreen :: "Display \<Rightarrow> Display" where
  "clearScreen d = d\<lparr>matrix := map (map (\<lambda>_. white)) (matrix d)\<rparr>"

definition Display_screen :: "Display screen" where
  "Display_screen = \<lparr>getMaxXY = Display_getMaxXY, drawPixel = Display_drawPixel\<rparr>"

text \<open>
  An observer of the painting: a screen that forwards to another one and keeps the list of
  the pixels whose \<open>drawPixel\<close> call returned \<open>nil\<close>, in the order of the calls.
\<close>

definition recording :: "'s screen \<Rightarrow> ('s \<times> (int \<times> int) list) screen" where
  "recording scn =
     \<lparr>getMaxXY = (\<lambda>(s, painted). getMaxXY scn s),
      drawPixel = (\<lambda>(s, painted) x y c.
         case drawPixel scn s x y c of
           None \<Rightarrow> None
         | Some (err, s') \<Rightarrow>
             Some (err, (s', if err = None then painted @ [(x, y)] else painted)))\<rparr>"

section \<open>Rectangle\<close>

function rect_loop_y ::
  "'s screen \<Rightarrow> Color \<Rightarrow> int \<Rightarrow> int \<Rightarrow> int \<Rightarrow> 's \<Rightarrow> (error option \<times> 's) option" where
  "rect_loop_y scn c x ury y s =
     (if y < ury then
        (case drawPixel scn s x y c of
           None \<Rightarrow> None
         | Some (Some err, s') \<Rightarrow> Some (Some err, s')
         | Some (None, s') \<Rightarrow> rect_loop_y scn c x ury (y + 1) s')
      else Some (None, s))"
  by pat_completeness auto
termination
  by (relation "measure (\<lambda>(scn, c, x, ury, y, s). nat (ury - y))") auto

declare rect_loop_y.simps [simp del]

function rect_loop_x ::
  "'s screen \<Rightarrow> Color \<Rightarrow> int \<Rightarrow> int \<Rightarrow> int \<Rightarrow> int \<Rightarrow> 's \<Rightarrow> (error option \<times> 's) option" where
  "rect_loop_x scn c lly urx ury x s =
     (if x < urx then
        (case rect_loop_y scn c x ury lly s of
           None \<Rightarrow> None
         | Some (Some err, s') \<Rightarrow> Some (Some err, s')
         | Some (None, s') \<Rightarrow> rect_loop_x scn c lly urx ury (x + 1) s')
      else Some (None, s))"
  by pat_completeness auto
termination
  by (relation "measure (\<lambda>(scn, c, lly, urx, ury, x, s). nat (urx - x))") auto

declare rect_loop_x.simps [simp del]

definition Rectangle_draw :: "'s screen \<Rightarrow> Rectangle \<Rightarrow> 's \<Rightarrow> (error option \<times> 's) option" where
  "Rectangle_draw scn r s =
     (if outOfBounds (rect_ll r) scn s \<or> outOfBounds (rect_ur r) scn s
      then Some (Some errOutOfBounds, s)
      else if colorUnknown (rect_c r) then Some (Some invalidColor, s)
      else rect_loop_x scn (rect_c r) (py (rect_ll r)) (px (rect_ur r)) (py (rect_ur r))
             (px (rect_ll r)) s)"

section \<open>Well-formed canvases\<close>

definition wf_Display :: "Display \<Rightarrow> bool" where
  "wf_Display d =
     (length (matrix d) = nat (maxX d) \<and>
      list_all (\<lambda>col. length col = nat (maxY d)) (matrix d))"

definition pixel :: "Display \<Rightarrow> int \<Rightarrow> int \<Rightarrow> Color" where
  "pixel d x y = matrix d ! nat x ! nat y"

definition inCanvas :: "Display \<Rightarrow> int \<Rightarrow> int \<Rightarrow> bool" where
  "inCanvas d x y = (0 \<le> x \<and> x < maxX d \<and> 0 \<le> y \<and> y < maxY d)"

definition putPixel :: "Display \<Rightarrow> int \<Rightarrow> int \<Rightarrow> Color \<Rightarrow> Display" where
  "putPixel d x y c = d\<lparr>matrix := (matrix d)[nat x := (matrix d ! nat x)[nat y := c]]\<rparr>"

section \<open>float64\<close>

text \<open>
  The finite values of a \<open>float64\<close> are rationals with a 53-bit significand; every
  operation returns the exact result rounded to the nearest such value, ties to even
  (IEEE 754, which Go follows, \<open>math.Sqrt\<close> included).  Infinities and NaN arise from a
  division by zero only.  The exponent range is not modelled: the magnitudes that arise
  from 64-bit integers stay far inside it.  The sign of zero is not modelled either: no
  operation below can tell the two zeros apart, since the only divisor is the conversion
  of an integer.
\<close>

datatype float64 = Finite rat | PosInf | NegInf | NaN

definition pow2 :: "int \<Rightarrow> rat" where
  "pow2 e = (if 0 \<le> e then 2 ^ nat e else 1 / 2 ^ nat (- e))"

text \<open>The binary exponent \<open>\<lfloor>log\<^sub>2 \<bar>x\<bar>\<rfloor>\<close> of a rational \<open>x \<noteq> 0\<close>.\<close>

definition flog2 :: "rat \<Rightarrow> int" where
  "flog2 x = (if 1 \<le> \<bar>x\<bar> then bitlen \<lfloor>\<bar>x\<bar>\<rfloor> - 1 else - bitlen (\<lceil>1 / \<bar>x\<bar>\<rceil> - 1))"

definition round_half_even :: "rat \<Rightarrow> int" where
  "round_half_even v =
     (let k = \<lfloor>v\<rfloor>; r = v - of_int k
      in if r < 1 / 2 then k else if 1 / 2 < r then k + 1 else if even k then k else k + 1)"

definition fl :: "rat \<Rightarrow> rat" where
  "fl x = (if x = 0 then 0
           else let q = pow2 (flog2 x - 52) in of_int (round_half_even (x / q)) * q)"

text \<open>The integer square root \<open>\<lfloor>\<surd>n\<rfloor>\<close>.\<close>

function isqrt :: "int \<Rightarrow> int" where
  "isqrt n =
     (if n < 1 then 0
      else let r = 2 * isqrt (n div 4) in if (r + 1) * (r + 1) \<le> n then r + 1 else r)"
  by pat_completeness auto
termination
  by (relation "measure nat") auto

declare isqrt.simps [simp del]

text \<open>
  The correctly rounded square root of \<open>x > 0\<close>: with \<open>q\<close> the spacing of the doubles
  around \<open>\<surd>x\<close> and \<open>k = \<lfloor>\<surd>x / q\<rfloor>\<close>, the result is \<open>k * q\<close> or \<open>(k + 1) * q\<close>,
  whichever is nearer.
\<close>

definition fl_sqrt :: "rat \<Rightarrow> rat" where
  "fl_sqrt x =
     (if x \<le> 0 then 0
      else let q = pow2 (flog2 x div 2 - 52);
               v = x / (q * q);
               k = isqrt \<lfloor>v\<rfloor>;
               h = (of_int k + 1 / 2) * (of_int k + 1 / 2)
           in (if v < h then of_int k else if h < v then of_int (k + 1)
               else if even k then of_int k else of_int (k + 1)) * q)"

definition f64_of_int :: "int \<Rightarrow> float64" where
  "f64_of_int z = Finite (fl (of_int z))"

fun f64_add :: "float64 \<Rightarrow> float64 \<Rightarrow> float64" where
  "f64_add (Finite a) (Finite b) = Finite (fl (a + b))"
| "f64_add NaN _ = NaN"
| "f64_add _ NaN = NaN"
| "f64_add PosInf NegInf = NaN"
| "f64_add NegInf PosInf = NaN"
| "f64_add PosInf _ = PosInf"
| "f64_add NegInf _ = NegInf"
| "f64_add _ PosInf = PosInf"
| "f64_add _ NegInf = NegInf"

fun f64_neg :: "float64 \<Rightarrow> float64" where
  "f64_neg (Finite a) = Finite (- a)"
| "f64_neg PosInf = NegInf"
| "f64_neg NegInf = PosInf"
| "f64_neg NaN = NaN"

fun f64_mul :: "float64 \<Rightarrow> float64 \<Rightarrow> float64" where
  "f64_mul (Finite a) (Finite b) = Finite (fl (a * b))"
| "f64_mul NaN _ = NaN"
| "f64_mul _ NaN = NaN"
| "f64_mul (Finite a) i = (if a = 0 then NaN else if 0 < a then i else f64_neg i)"
| "f64_mul i (Finite b) = (if b = 0 then NaN else if 0 < b then i else f64_neg i)"
| "f64_mul PosInf i = i"
| "f64_mul NegInf i = f64_neg i"

fun f64_div :: "float64 \<Rightarrow> float64 \<Rightarrow> float64" where
  "f64_div (Finite a) (Finite b) =
     (if b = 0 then (if a = 0 then NaN else if 0 < a then PosInf else NegInf)
      else Finite (fl (a / b)))"
| "f64_div NaN _ = NaN"
| "f64_div _ NaN = NaN"
| "f64_div (Finite a) _ = Finite 0"
| "f64_div i (Finite b) = (if 0 \<le> b then i else f64_neg i)"
| "f64_div _ _ = NaN"

fun f64_sqrt :: "float64 \<Rightarrow> float64" where
  "f64_sqrt (Finite a) = (if a < 0 then NaN else Finite (fl_sqrt a))"
| "f64_sqrt PosInf = PosInf"
| "f64_sqrt _ = NaN"

fun f64_le :: "float64 \<Rightarrow> float64 \<Rightarrow> bool" where
  "f64_le (Finite a) (Finite b) = (a \<le> b)"
| "f64_le NaN _ = False"
| "f64_le _ NaN = False"
| "f64_le NegInf _ = True"
| "f64_le _ PosInf = True"
| "f64_le _ _ = False"

text \<open>
  The conversion \<open>int(d)\<close> truncates toward zero; of an infinity or a NaN it is
  implementation-dependent in Go, which is \<open>None\<close> here.
\<close>

definition trunc :: "rat \<Rightarrow> int" where
  "trunc v = (if 0 \<le> v then \<lfloor>v\<rfloor> else \<lceil>v\<rceil>)"

fun f64_to_int :: "float64 \<Rightarrow> int option" where
  "f64_to_int (Finite a) = Some (trunc a)"
| "f64_to_int _ = None"

section \<open>Circle\<close>

text \<open>
  The two loops run up to \<open>center + r\<close>, which the bounds test has found below a dimension
  of the canvas, itself an \<open>int\<close>: the increments \<open>x++\<close> and \<open>y++\<close> cannot wrap.
\<close>

definition insideCircle :: "Point \<Rightarrow> Point \<Rightarrow> float64 \<Rightarrow> bool" where
  "insideCircle center tile r =
     (let dx = f64_of_int (sub64 (px center) (px tile));
          dy = f64_of_int (sub64 (py center) (py tile));
          distance = f64_sqrt (f64_add (f64_mul dx dx) (f64_mul dy dy))
      in f64_le distance r)"

function circ_loop_x ::
  "'s screen \<Rightarrow> Circle \<Rightarrow> int \<Rightarrow> int \<Rightarrow> int \<Rightarrow> int \<Rightarrow> 's \<Rightarrow> 's option" where
  "circ_loop_x scn c mX mY y x s =
     (if x \<le> add64 (px (circ_center c)) (circ_r c) then
        (if insideCircle (circ_center c) \<lparr>px = x, py = y\<rparr> (f64_of_int (circ_r c)) \<and>
            x \<ge> 0 \<and> x < mX \<and> y \<ge> 0 \<and> y < mY
         then (case drawPixel scn s x y (circ_c c) of
                 None \<Rightarrow> None
               | Some (err, s') \<Rightarrow> circ_loop_x scn c mX mY y (x + 1) s')
         else circ_loop_x scn c mX mY y (x + 1) s)
      else Some s)"
  by pat_completeness auto
termination
  by (relation "measure (\<lambda>(scn, c, mX, mY, y, x, s). nat (add64 (px (circ_center c)) (circ_r c) + 1 - x))")
    auto

declare circ_loop_x.simps [simp del]

function circ_loop_y ::
  "'s screen \<Rightarrow> Circle \<Rightarrow> int \<Rightarrow> int \<Rightarrow> int \<Rightarrow> 's \<Rightarrow> 's option" where
  "circ_loop_y scn c mX mY y s =
     (if y \<le> add64 (py (circ_center c)) (circ_r c) then
        (case circ_loop_x scn c mX mY y (sub64 (px (circ_center c)) (circ_r c)) s of
           None \<Rightarrow> None
         | Some s' \<Rightarrow> circ_loop_y scn c mX mY (y + 1) s')
      else Some s)"
  by pat_completeness auto
termination
  by (relation "measure (\<lambda>(scn, c, mX, mY, y, s). nat (add64 (py (circ_center c)) (circ_r c) + 1 - y))")
    auto

declare circ_loop_y.simps [simp del]

definition Circle_draw :: "'s screen \<Rightarrow> Circle \<Rightarrow> 's \<Rightarrow> (error option \<times> 's) option" where
  "Circle_draw scn c s =
     (case getMaxXY scn s of (mX, mY) \<Rightarrow>
        if sub64 (px (circ_center c)) (circ_r c) < 0 \<or> sub64 (py (circ_center c)) (circ_r c) < 0 \<or>
           add64 (px (circ_center c)) (circ_r c) \<ge> mX \<or> add64 (py (circ_center c)) (circ_r c) \<ge> mY
        then Some (Some errOutOfBounds, s)
        else if colorUnknown (circ_c c) then Some (Some invalidColor, s)
        else (case circ_loop_y scn c mX mY (sub64 (py (circ_center c)) (circ_r c)) s of
                None \<Rightarrow> None
              | Some s' \<Rightarrow> Some (None, s')))"

section \<open>Triangle\<close>

function interpolate_loop :: "int \<Rightarrow> float64 \<Rightarrow> float64 \<Rightarrow> int list \<Rightarrow> int list option" where
  "interpolate_loop count d a values =
     (if count > 0 then
        (case f64_to_int d of
           None \<Rightarrow> None
         | Some v \<Rightarrow> interpolate_loop (count - 1) (f64_add d a) a (values @ [v]))
      else Some values)"
  by pat_completeness auto
termination
  by (relation "measure (\<lambda>(count, d, a, values). nat count)") auto

declare interpolate_loop.simps [simp del]

text \<open>
  A float division has no effect but its value, so a call of \<open>interpolate\<close> is modelled
  together with the operands of the one division it performs, the dividend
  \<open>float64(d1 - d0)\<close> and the divisor \<open>float64(l1 - l0)\<close>; \<open>interpolate\<close> is its result.
\<close>

definition interpolate_traced ::
  "int \<Rightarrow> int \<Rightarrow> int \<Rightarrow> int \<Rightarrow> (float64 \<times> float64) \<times> int list option" where
  "interpolate_traced l0 d0 l1 d1 =
     (let num = f64_of_int (d1 - d0);
          den = f64_of_int (l1 - l0);
          a = f64_div num den;
          d = f64_of_int d0;
          count = l1 - l0 + 1
      in ((num, den), interpolate_loop count d a []))"

definition interpolate :: "int \<Rightarrow> int \<Rightarrow> int \<Rightarrow> int \<Rightarrow> int list option" where
  "interpolate l0 d0 l1 d1 = snd (interpolate_traced l0 d0 l1 d1)"

text \<open>
  The three conditional swaps of \<open>Triangle.draw\<close>.  The source reads \<open>y0\<close>, \<open>y1\<close>, \<open>y2\<close>
  once, before the first swap, and compares these same values in all three tests.
\<close>

definition sortVertices :: "Triangle \<Rightarrow> Triangle" where
  "sortVertices tri =
     (let y0 = py (tri_pt0 tri); y1 = py (tri_pt1 tri); y2 = py (tri_pt2 tri);
          t1 = (if y1 < y0 then tri\<lparr>tri_pt1 := tri_pt0 tri, tri_pt0 := tri_pt1 tri\<rparr> else tri);
          t2 = (if y2 < y0 then t1\<lparr>tri_pt2 := tri_pt0 t1, tri_pt0 := tri_pt2 t1\<rparr> else t1)
      in (if y2 < y1 then t2\<lparr>tri_pt2 := tri_pt1 t2, tri_pt1 := tri_pt2 t2\<rparr> else t2))"

function tri_loop_x ::
  "'s screen \<Rightarrow> Color \<Rightarrow> int \<Rightarrow> int \<Rightarrow> int \<Rightarrow> 's \<Rightarrow> 's option" where
  "tri_loop_x scn c xr y x s =
     (if x \<le> xr then
        (case drawPixel scn s x y c of
           None \<Rightarrow> None
         | Some (err, s') \<Rightarrow> tri_loop_x scn c xr y (x + 1) s')
      else Some s)"
  by pat_completeness auto
termination
  by (relation "measure (\<lambda>(scn, c, xr, y, x, s). nat (xr + 1 - x))") auto

declare tri_loop_x.simps [simp del]

function tri_loop_y ::
  "'s screen \<Rightarrow> Color \<Rightarrow> int list \<Rightarrow> int list \<Rightarrow> int \<Rightarrow> int \<Rightarrow> int \<Rightarrow> 's \<Rightarrow> 's option" where
  "tri_loop_y scn c x_left x_right y0 y2 y s =
     (if y \<le> y2 then
        (if y - y0 < 0 \<or> nat (y - y0) \<ge> length x_left \<or> nat (y - y0) \<ge> length x_right
         then None
         else (case tri_loop_x scn c (x_right ! nat (y - y0)) y (x_left ! nat (y - y0)) s of
                 None \<Rightarrow> None
               | Some s' \<Rightarrow> tri_loop_y scn c x_left x_right y0 y2 (y + 1) s'))
      else Some s)"
  by pat_completeness auto
termination
  by (relation "measure (\<lambda>(scn, c, x_left, x_right, y0, y2, y, s). nat (y2 + 1 - y))") auto

declare tri_loop_y.simps [simp del]

text \<open>
  \<open>Triangle.draw\<close>, together with the float divisions that its calls of \<open>interpolate\<close>
  perform, in the order of the calls; \<open>Triangle_draw\<close> is what it returns.
\<close>

definition Triangle_draw_traced ::
  "'s screen \<Rightarrow> Triangle \<Rightarrow> 's \<Rightarrow> (float64 \<times> float64) list \<times> (error option \<times> 's) option" where
  "Triangle_draw_traced scn tri s =
     (if outOfBounds (tri_pt0 tri) scn s \<or> outOfBounds (tri_pt1 tri) scn s \<or>
         outOfBounds (tri_pt2 tri) scn s
      then ([], Some (Some errOutOfBounds, s))
      else if colorUnknown (tri_c tri) then ([], Some (Some invalidColor, s))
      else
        (let t = sortVertices tri;
             x0 = px (tri_pt0 t); y0 = py (tri_pt0 t);
             x1 = px (tri_pt1 t); y1 = py (tri_pt1 t);
             x2 = px (tri_pt2 t); y2 = py (tri_pt2 t);
             (division01, result01) = interpolate_traced y0 x0 y1 x1;
             (division12, result12) = interpolate_traced y1 x1 y2 x2;
             (division02, result02) = interpolate_traced y0 x0 y2 x2
         in ([division01, division12, division02],
             case result01 of None \<Rightarrow> None | Some x01 \<Rightarrow>
            (case result12 of None \<Rightarrow> None | Some x12 \<Rightarrow>
            (case result02 of None \<Rightarrow> None | Some x02 \<Rightarrow>
               if x01 = [] then None
               else
                 (let x012 = butlast x01 @ x12;
                      m = length x012 div 2
                  in if m \<ge> length x02 \<or> m \<ge> length x012 then None
                     else
                       (let (x_left, x_right) =
                              (if x02 ! m < x012 ! m then (x02, x012) else (x012, x02))
                        in case tri_loop_y scn (tri_c t) x_left x_right y0 y2 y0 s of
                             None \<Rightarrow> None
                           | Some s' \<Rightarrow> Some (None, s'))))))))"

definition Triangle_draw :: "'s screen \<Rightarrow> Triangle \<Rightarrow> 's \<Rightarrow> (error option \<times> 's) option" where
  "Triangle_draw scn tri s = snd (Triangle_draw_traced scn tri s)"

section \<open>Examples\<close>

definition red :: Color where
  "red = \<lparr>Name = ''red''\<rparr>"

definition canvas10 :: Display where
  "canvas10 = \<lparr>maxX = 10, maxY = 10, matrix = replicate 10 (replicate 10 white)\<rparr>"

definition rect_2_5 :: Rectangle where
  "rect_2_5 = \<lparr>rect_ll = \<lparr>px = 2, py = 2\<rparr>, rect_ur = \<lparr>px = 5, py = 5\<rparr>, rect_c = red\<rparr>"

definition pink :: Color where
  "pink = \<lparr>Name = ''pink''\<rparr>"

definition green :: Color where
  "green = \<lparr>Name = ''green''\<rparr>"

definition rect_far_pink :: Rectangle where
  "rect_far_pink = \<lparr>rect_ll = \<lparr>px = 2, py = 2\<rparr>, rect_ur = \<lparr>px = 50, py = 5\<rparr>, rect_c = pink\<rparr>"

definition rect_pink :: Rectangle where
  "rect_pink = \<lparr>rect_ll = \<lparr>px = 2, py = 2\<rparr>, rect_ur = \<lparr>px = 5, py = 5\<rparr>, rect_c = pink\<rparr>"

definition tri_pink :: Triangle where
  "tri_pink = \<lparr>tri_pt0 = \<lparr>px = 0, py = 0\<rparr>, tri_pt1 = \<lparr>px = 4, py = 0\<rparr>,
     tri_pt2 = \<lparr>px = 2, py = 4\<rparr>, tri_c = pink\<rparr>"

definition circ_far_pink :: Circle where
  "circ_far_pink = \<lparr>circ_center = \<lparr>px = 8, py = 5\<rparr>, circ_r = 3, circ_c = pink\<rparr>"

definition circ_neg :: Circle where
  "circ_neg = \<lparr>circ_center = \<lparr>px = 5, py = 5\<rparr>, circ_r = - 1, circ_c = red\<rparr>"

text \<open>
  A screen of 10 by 10 pixels whose state counts the calls of \<open>drawPixel\<close>; the first call
  returns an error, every later one succeeds.
\<close>

definition first_fails :: "nat screen" where
  "first_fails =
     \<lparr>getMaxXY = (\<lambda>n. (10, 10)),
      drawPixel = (\<lambda>n x y c. Some (if n = 0 then Some errOutOfBounds else None, Suc n))\<rparr>"

definition tri_flat :: Triangle where
  "tri_flat = \<lparr>tri_pt0 = \<lparr>px = 0, py = 0\<rparr>, tri_pt1 = \<lparr>px = 4, py = 0\<rparr>,
     tri_pt2 = \<lparr>px = 2, py = 4\<rparr>, tri_c = green\<rparr>"

definition circ_1 :: Circle where
  "circ_1 = \<lparr>circ_center = \<lparr>px = 1, py = 1\<rparr>, circ_r = 1, circ_c = green\<rparr>"

definition rect_1 :: Rectangle where
  "rect_1 = \<lparr>rect_ll = \<lparr>px = 0, py = 0\<rparr>, rect_ur = \<lparr>px = 2, py = 2\<rparr>, rect_c = green\<rparr>"

section \<open>Sequences of canvas operations\<close>

text \<open>
  What a caller can do to a canvas between \<open>initialize\<close> and \<open>screenShot\<close>.  An operation
  that returns an error leaves the canvas as the operation left it; a panic ends the run.
\<close>

datatype operation =
  OpDrawPixel int int Color
| OpClearScreen
| OpRectangle Rectangle
| OpTriangle Triangle
| OpCircle Circle

fun apply_operation :: "Display \<Rightarrow> operation \<Rightarrow> Display option" where
  "apply_operation d (OpDrawPixel x y c) = map_option snd (Display_drawPixel d x y c)"
| "apply_operation d OpClearScreen = Some (clearScreen d)"
| "apply_operation d (OpRectangle r) = map_option snd (Rectangle_draw Display_screen r d)"
| "apply_operation d (OpTriangle t) = map_option snd (Triangle_draw Display_screen t d)"
| "apply_operation d (OpCircle c) = map_option snd (Circle_draw Display_screen c d)"

fun run :: "Display \<Rightarrow> operation list \<Rightarrow> Display option" where
  "run d [] = Some d"
| "run d (operation # rest) =
     (case apply_operation d operation of None \<Rightarrow> None | Some d' \<Rightarrow> run d' rest)"

definition cells_valid :: "Display \<Rightarrow> bool" where
  "cells_valid d = list_all (list_all (\<lambda>c. \<not> colorUnknown c)) (matrix d)"

definition circ_3 :: Circle where
  "circ_3 = \<lparr>circ_center = \<lparr>px = 5, py = 5\<rparr>, circ_r = 3, circ_c = green\<rparr>"

definition circ_min :: Circle where
  "circ_min = \<lparr>circ_center = \<lparr>px = 5, py = 5\<rparr>, circ_r = - (2 ^ 63), circ_c = red\<rparr>"

section \<open>Writing the image file\<close>

text \<open>
  The file system, as far as \<open>screenShot\<close> uses it: \<open>os.Create\<close> and the writes of the
  \<open>fmt.Fprint\<close> family, each of which can fail (\<open>None\<close>).
\<close>

record 'f filesystem =
  fs_create :: "string \<Rightarrow> 'f option"
  fs_write :: "'f \<Rightarrow> string \<Rightarrow> 'f option"

fun digits :: "nat \<Rightarrow> string" where
  "digits n = (if n < 10 then [''0123456789'' ! n] else digits (n div 10) @ [''0123456789'' ! (n mod 10)])"

declare digits.simps [simp del]

text \<open>The verb \<open>%d\<close>.\<close>

definition fmt_d :: "int \<Rightarrow> string" where
  "fmt_d i = (if i < 0 then ''-'' @ digits (nat (- i)) else digits (nat i))"

definition newline :: string where
  "newline = [CHR 0x0A]"

text \<open>\<open>ColorMap[color.Name]\<close>: a missing key gives the zero value.\<close>

definition ColorMap_lookup :: "string \<Rightarrow> RGB" where
  "ColorMap_lookup name = (case ColorMap name of None \<Rightarrow> RGB 0 0 0 | Some rgb \<Rightarrow> rgb)"

definition fmt_rgb :: "RGB \<Rightarrow> string" where
  "fmt_rgb rgb = (case rgb of RGB r g b \<Rightarrow> fmt_d r @ '' '' @ fmt_d g @ '' '' @ fmt_d b)"

function screenShot_loop_x ::
  "'f filesystem \<Rightarrow> Display \<Rightarrow> int \<Rightarrow> int \<Rightarrow> 'f \<Rightarrow> (error option \<times> 'f) option" where
  "screenShot_loop_x fs d y x file =
     (if x < maxX d then
        (if x < 0 \<or> nat x \<ge> length (matrix d) \<or> y < 0 \<or> nat y \<ge> length (matrix d ! nat x)
         then None
         else
           (let color = matrix d ! nat x ! nat y;
                rgb = ColorMap_lookup (Name color)
            in case (if x > 0 then fs_write fs file '' '' else Some file) of
                 None \<Rightarrow> Some (Some fileError, file)
               | Some file1 \<Rightarrow>
                   (case fs_write fs file1 (fmt_rgb rgb) of
                      None \<Rightarrow> Some (Some fileError, file1)
                    | Some file2 \<Rightarrow> screenShot_loop_x fs d y (x + 1) file2)))
      else Some (None, file))"
  by pat_completeness auto
termination
  by (relation "measure (\<lambda>(fs, d, y, x, file). nat (maxX d - x))") auto

declare screenShot_loop_x.simps [simp del]

function screenShot_loop_y ::
  "'f filesystem \<Rightarrow> Display \<Rightarrow> int \<Rightarrow> 'f \<Rightarrow> (error option \<times> 'f) option" where
  "screenShot_loop_y fs d y file =
     (if y < maxY d then
        (case screenShot_loop_x fs d y 0 file of
           None \<Rightarrow> None
         | Some (Some err, file1) \<Rightarrow> Some (Some err, file1)
         | Some (None, file1) \<Rightarrow>
             (case fs_write fs file1 newline of
                None \<Rightarrow> Some (Some fileError, file1)
              | Some file2 \<Rightarrow> screenShot_loop_y fs d (y + 1) file2))
      else Some (None, file))"
  by pat_completeness auto
termination
  by (relation "measure (\<lambda>(fs, d, y, file). nat (maxY d - y))") auto

declare screenShot_loop_y.simps [simp del]

definition screenShot ::
  "'f filesystem \<Rightarrow> Display \<Rightarrow> string \<Rightarrow> (error option \<times> 'f option) option" where
  "screenShot fs d f =
     (case fs_create fs (f @ ''.ppm'') of
        None \<Rightarrow> Some (Some fileError, None)
      | Some file \<Rightarrow>
          (case fs_write fs file (''P3'' @ newline @ fmt_d (maxX d) @ '' '' @ fmt_d (maxY d) @
                               newline @ ''255'' @ newline) of
             None \<Rightarrow> Some (Some fileError, Some file)
           | Some file1 \<Rightarrow>
               (case screenShot_loop_y fs d 0 file1 of
                  None \<Rightarrow> None
                | Some (err, file2) \<Rightarrow> Some (err, Some file2))))"

text \<open>A file system in memory: a file is its content, and nothing fails.\<close>

definition memory_fs :: "string filesystem" where
  "memory_fs = \<lparr>fs_create = (\<lambda>name. Some []), fs_write = (\<lambda>file text. Some (file @ text))\<rparr>"

text \<open>
  The image as the specification describes it: the header lines \<open>P3\<close>, width and height,
  \<open>255\<close>; then one line per row \<open>y\<close>, top row first, with the triples of the pixels
  \<open>(0, y)\<close> to \<open>(width - 1, y)\<close> separated by single spaces.
\<close>

fun join :: "string \<Rightarrow> string list \<Rightarrow> string" where
  "join sep [] = []"
| "join sep [x] = x"
| "join sep (x # y # ys) = x @ sep @ join sep (y # ys)"

definition ppm_pixel :: "Display \<Rightarrow> int \<Rightarrow> int \<Rightarrow> string" where
  "ppm_pixel d y x = fmt_rgb (ColorMap_lookup (Name (pixel d x y)))"

definition ppm_row :: "Display \<Rightarrow> int \<Rightarrow> string" where
  "ppm_row d y = join '' '' (map (ppm_pixel d y) [0..maxX d - 1]) @ newline"

definition ppm_text :: "Display \<Rightarrow> string" where
  "ppm_text d =
     ''P3'' @ newline @ fmt_d (maxX d) @ '' '' @ fmt_d (maxY d) @ newline @ ''255'' @ newline @
     concat (map (ppm_row d) [0..maxY d - 1])"

definition canvas2 :: Display where
  "canvas2 = \<lparr>maxX = 2, maxY = 2, matrix = [[red, white], [green, white]]\<rparr>"


section \<open>One iteration of each loop\<close>

lemma Triangle_draw_unfold:
  "Triangle_draw scn tri s =
     (if outOfBounds (tri_pt0 tri) scn s \<or> outOfBounds (tri_pt1 tri) scn s \<or>
         outOfBounds (tri_pt2 tri) scn s
      then Some (Some errOutOfBounds, s)
      else if colorUnknown (tri_c tri) then Some (Some invalidColor, s)
      else
        (let t = sortVertices tri;
             x0 = px (tri_pt0 t); y0 = py (tri_pt0 t);
             x1 = px (tri_pt1 t); y1 = py (tri_pt1 t);
             x2 = px (tri_pt2 t); y2 = py (tri_pt2 t)
         in case interpolate y0 x0 y1 x1 of None \<Rightarrow> None | Some x01 \<Rightarrow>
            (case interpolate y1 x1 y2 x2 of None \<Rightarrow> None | Some x12 \<Rightarrow>
            (case interpolate y0 x0 y2 x2 of None \<Rightarrow> None | Some x02 \<Rightarrow>
               if x01 = [] then None
               else
                 (let x012 = butlast x01 @ x12;
                      m = length x012 div 2
                  in if m \<ge> length x02 \<or> m \<ge> length x012 then None
                     else
                       (let (x_left, x_right) =
                              (if x02 ! m < x012 ! m then (x02, x012) else (x012, x02))
                        in case tri_loop_y scn (tri_c t) x_left x_right y0 y2 y0 s of
                             None \<Rightarrow> None
                           | Some s' \<Rightarrow> Some (None, s')))))))"
  by (simp add: Triangle_draw_def Triangle_draw_traced_def interpolate_def Let_def
      split: prod.splits option.splits)

lemma rect_loop_y_stop: "\<not> y < ury \<Longrightarrow> rect_loop_y scn c x ury y s = Some (None, s)"
  by (subst rect_loop_y.simps) simp

lemma rect_loop_y_step:
  "y < ury \<Longrightarrow> rect_loop_y scn c x ury y s =
     (case drawPixel scn s x y c of
        None \<Rightarrow> None
      | Some (Some err, s') \<Rightarrow> Some (Some err, s')
      | Some (None, s') \<Rightarrow> rect_loop_y scn c x ury (y + 1) s')"
  by (subst rect_loop_y.simps) simp

lemma rect_loop_x_stop: "\<not> x < urx \<Longrightarrow> rect_loop_x scn c lly urx ury x s = Some (None, s)"
  by (subst rect_loop_x.simps) simp

lemma rect_loop_x_step:
  "x < urx \<Longrightarrow> rect_loop_x scn c lly urx ury x s =
     (case rect_loop_y scn c x ury lly s of
        None \<Rightarrow> None
      | Some (Some err, s') \<Rightarrow> Some (Some err, s')
      | Some (None, s') \<Rightarrow> rect_loop_x scn c lly urx ury (x + 1) s')"
  by (subst rect_loop_x.simps) simp

lemma tri_loop_x_stop: "\<not> x \<le> xr \<Longrightarrow> tri_loop_x scn c xr y x s = Some s"
  by (subst tri_loop_x.simps) simp

lemma tri_loop_x_step:
  "x \<le> xr \<Longrightarrow> tri_loop_x scn c xr y x s =
     (case drawPixel scn s x y c of
        None \<Rightarrow> None
      | Some (err, s') \<Rightarrow> tri_loop_x scn c xr y (x + 1) s')"
  by (subst tri_loop_x.simps) simp

lemma tri_loop_y_stop: "\<not> y \<le> y2 \<Longrightarrow> tri_loop_y scn c x_left x_right y0 y2 y s = Some s"
  by (subst tri_loop_y.simps) simp

lemma tri_loop_y_step:
  "y \<le> y2 \<Longrightarrow> tri_loop_y scn c x_left x_right y0 y2 y s =
     (if y - y0 < 0 \<or> nat (y - y0) \<ge> length x_left \<or> nat (y - y0) \<ge> length x_right
      then None
      else (case tri_loop_x scn c (x_right ! nat (y - y0)) y (x_left ! nat (y - y0)) s of
              None \<Rightarrow> None
            | Some s' \<Rightarrow> tri_loop_y scn c x_left x_right y0 y2 (y + 1) s'))"
  by (subst tri_loop_y.simps) simp

lemma circ_loop_x_stop:
  "\<not> x \<le> add64 (px (circ_center c)) (circ_r c) \<Longrightarrow> circ_loop_x scn c mX mY y x s = Some s"
  by (subst circ_loop_x.simps) simp

lemma circ_loop_x_step:
  "x \<le> add64 (px (circ_center c)) (circ_r c) \<Longrightarrow> circ_loop_x scn c mX mY y x s =
     (if insideCircle (circ_center c) \<lparr>px = x, py = y\<rparr> (f64_of_int (circ_r c)) \<and>
         x \<ge> 0 \<and> x < mX \<and> y \<ge> 0 \<and> y < mY
      then (case drawPixel scn s x y (circ_c c) of
              None \<Rightarrow> None
            | Some (err, s') \<Rightarrow> circ_loop_x scn c mX mY y (x + 1) s')
      else circ_loop_x scn c mX mY y (x + 1) s)"
  by (subst circ_loop_x.simps) simp

lemma circ_loop_y_stop:
  "\<not> y \<le> add64 (py (circ_center c)) (circ_r c) \<Longrightarrow> circ_loop_y scn c mX mY y s = Some s"
  by (subst circ_loop_y.simps) simp

lemma circ_loop_y_step:
  "y \<le> add64 (py (circ_center c)) (circ_r c) \<Longrightarrow> circ_loop_y scn c mX mY y s =
     (case circ_loop_x scn c mX mY y (sub64 (px (circ_center c)) (circ_r c)) s of
        None \<Rightarrow> None
      | Some s' \<Rightarrow> circ_loop_y scn c mX mY (y + 1) s')"
  by (subst circ_loop_y.simps) simp



section \<open>Writing a pixel of a well-formed canvas\<close>

lemma Display_drawPixel_ok:
  assumes "wf_Display d" "inCanvas d x y" "\<not> colorUnknown c"
  shows "Display_drawPixel d x y c = Some (None, putPixel d x y c)"
proof -
  from assms have "nat x < length (matrix d)"
    by (auto simp: wf_Display_def inCanvas_def)
  moreover from this assms have "nat y < length (matrix d ! nat x)"
    by (auto simp: wf_Display_def inCanvas_def list_all_length)
  ultimately show ?thesis using assms
    by (auto simp: Display_drawPixel_def putPixel_def inCanvas_def)
qed

lemma wf_putPixel: "wf_Display d \<Longrightarrow> wf_Display (putPixel d x y c)"
proof -
  have "length ((matrix d)[nat x := (matrix d ! nat x)[nat y := c]] ! n) = length (matrix d ! n)"
    if "n < length (matrix d)" for n
    using that by (cases "n = nat x") simp_all
  then show "wf_Display d \<Longrightarrow> wf_Display (putPixel d x y c)"
    by (simp add: wf_Display_def putPixel_def list_all_length)
qed

lemma maxX_putPixel [simp]: "maxX (putPixel d x y c) = maxX d"
  and maxY_putPixel [simp]: "maxY (putPixel d x y c) = maxY d"
  by (simp_all add: putPixel_def)

lemma inCanvas_putPixel [simp]: "inCanvas (putPixel d x y c) i j = inCanvas d i j"
  by (simp add: inCanvas_def)

lemma pixel_putPixel:
  assumes "wf_Display d" "inCanvas d x y" "inCanvas d i j"
  shows "pixel (putPixel d x y c) i j = (if i = x \<and> j = y then c else pixel d i j)"
proof -
  from assms have lx: "nat x < length (matrix d)" and li: "nat i < length (matrix d)"
    by (auto simp: wf_Display_def inCanvas_def)
  from assms lx li have ly: "nat y < length (matrix d ! nat x)" and lj: "nat j < length (matrix d ! nat i)"
    by (auto simp: wf_Display_def inCanvas_def list_all_length)
  from assms have eq: "nat i = nat x \<longleftrightarrow> i = x" "nat j = nat y \<longleftrightarrow> j = y"
    by (auto simp: inCanvas_def)
  show ?thesis using lx li ly lj eq
    by (auto simp: pixel_def putPixel_def nth_list_update)
qed

lemma RD_getMaxXY [simp]: "getMaxXY (recording Display_screen) (d, painted) = (maxX d, maxY d)"
  by (simp add: recording_def Display_screen_def Display_getMaxXY_def)

lemma RD_drawPixel_ok:
  assumes "wf_Display d" "inCanvas d x y" "\<not> colorUnknown c"
  shows "drawPixel (recording Display_screen) (d, painted) x y c =
           Some (None, (putPixel d x y c, painted @ [(x, y)]))"
  using Display_drawPixel_ok [OF assms] by (simp add: recording_def Display_screen_def)

lemma upto_step: "y < u \<Longrightarrow> [y..u - 1] = y # [y + 1..u - 1]"
  by (simp add: upto_rec1)

lemma rect_loop_y_RD:
  assumes "wf_Display d" "\<not> colorUnknown c" "0 \<le> x" "x < maxX d" "0 \<le> y" "ury \<le> maxY d"
  shows "\<exists>d'. rect_loop_y (recording Display_screen) c x ury y (d, painted) =
             Some (None, (d', painted @ map (Pair x) [y..ury - 1])) \<and>
           wf_Display d' \<and> maxX d' = maxX d \<and> maxY d' = maxY d \<and>
           (\<forall>i j. inCanvas d i j \<longrightarrow>
              pixel d' i j = (if i = x \<and> y \<le> j \<and> j < ury then c else pixel d i j))"
  using assms
proof (induction "nat (ury - y)" arbitrary: y d painted)
  case 0
  then have "ury \<le> y" by simp
  then show ?case using 0 by (auto simp: rect_loop_y_stop)
next
  case (Suc n)
  then have lt: "y < ury" by linarith
  with Suc.prems have inC: "inCanvas d x y" by (simp add: inCanvas_def)
  let ?d = "putPixel d x y c"
  have step: "rect_loop_y (recording Display_screen) c x ury y (d, painted) =
      rect_loop_y (recording Display_screen) c x ury (y + 1) (?d, painted @ [(x, y)])"
    using lt RD_drawPixel_ok [OF Suc.prems(1) inC Suc.prems(2)]
    by (subst rect_loop_y.simps) simp
  have "n = nat (ury - (y + 1))" using Suc.hyps(2) by linarith
  from Suc.hyps(1) [OF this, of ?d "painted @ [(x, y)]"] Suc.prems
  obtain d' where d': "rect_loop_y (recording Display_screen) c x ury (y + 1) (?d, painted @ [(x, y)]) =
        Some (None, (d', (painted @ [(x, y)]) @ map (Pair x) [y + 1..ury - 1]))"
      "wf_Display d'" "maxX d' = maxX d" "maxY d' = maxY d"
      "\<forall>i j. inCanvas ?d i j \<longrightarrow>
              pixel d' i j = (if i = x \<and> y + 1 \<le> j \<and> j < ury then c else pixel ?d i j)"
    by (auto simp: wf_putPixel)
  have "\<forall>i j. inCanvas d i j \<longrightarrow>
              pixel d' i j = (if i = x \<and> y \<le> j \<and> j < ury then c else pixel d i j)"
    using d'(5) lt by (auto simp: pixel_putPixel [OF Suc.prems(1) inC])
  with d' step lt show ?case by (auto simp: upto_step)
qed

lemma rect_loop_x_RD:
  assumes "wf_Display d" "\<not> colorUnknown c" "0 \<le> x" "urx \<le> maxX d" "0 \<le> lly" "ury \<le> maxY d"
  shows "\<exists>d'. rect_loop_x (recording Display_screen) c lly urx ury x (d, painted) =
             Some (None, (d', painted @ concat (map (\<lambda>i. map (Pair i) [lly..ury - 1]) [x..urx - 1]))) \<and>
           wf_Display d' \<and> maxX d' = maxX d \<and> maxY d' = maxY d \<and>
           (\<forall>i j. inCanvas d i j \<longrightarrow>
              pixel d' i j =
                (if x \<le> i \<and> i < urx \<and> lly \<le> j \<and> j < ury then c else pixel d i j))"
  using assms
proof (induction "nat (urx - x)" arbitrary: x d painted)
  case 0
  then have "urx \<le> x" by simp
  then show ?case using 0 by (auto simp: rect_loop_x_stop)
next
  case (Suc n)
  then have lt: "x < urx" by linarith
  with Suc.prems have xb: "x < maxX d" by simp
  from rect_loop_y_RD [OF Suc.prems(1,2,3) xb Suc.prems(5,6), of painted]
  obtain d1 where d1: "rect_loop_y (recording Display_screen) c x ury lly (d, painted) =
             Some (None, (d1, painted @ map (Pair x) [lly..ury - 1]))"
      "wf_Display d1" "maxX d1 = maxX d" "maxY d1 = maxY d"
      "\<forall>i j. inCanvas d i j \<longrightarrow>
              pixel d1 i j = (if i = x \<and> lly \<le> j \<and> j < ury then c else pixel d i j)"
    by blast
  have step: "rect_loop_x (recording Display_screen) c lly urx ury x (d, painted) =
      rect_loop_x (recording Display_screen) c lly urx ury (x + 1) (d1, painted @ map (Pair x) [lly..ury - 1])"
    using lt d1(1) by (subst rect_loop_x.simps) simp
  have n: "n = nat (urx - (x + 1))" using Suc.hyps(2) by linarith
  have p3: "0 \<le> x + 1" using Suc.prems(3) by simp
  have p4: "urx \<le> maxX d1" using Suc.prems(4) d1(3) by simp
  have p6: "ury \<le> maxY d1" using Suc.prems(6) d1(4) by simp
  from Suc.hyps(1) [OF n d1(2) Suc.prems(2) p3 p4 Suc.prems(5) p6,
      where painted = "painted @ map (Pair x) [lly..ury - 1]"]
  obtain d' where d': "rect_loop_x (recording Display_screen) c lly urx ury (x + 1)
         (d1, painted @ map (Pair x) [lly..ury - 1]) =
        Some (None, (d', (painted @ map (Pair x) [lly..ury - 1]) @
           concat (map (\<lambda>i. map (Pair i) [lly..ury - 1]) [x + 1..urx - 1])))"
      "wf_Display d'" "maxX d' = maxX d1" "maxY d' = maxY d1"
      "\<forall>i j. inCanvas d1 i j \<longrightarrow>
              pixel d' i j =
                (if x + 1 \<le> i \<and> i < urx \<and> lly \<le> j \<and> j < ury then c else pixel d1 i j)"
    by blast
  have same: "inCanvas d1 i j = inCanvas d i j" for i j
    by (simp add: inCanvas_def d1)
  have "\<forall>i j. inCanvas d i j \<longrightarrow>
              pixel d' i j =
                (if x \<le> i \<and> i < urx \<and> lly \<le> j \<and> j < ury then c else pixel d i j)"
  proof (intro allI impI)
    fix i j assume ic: "inCanvas d i j"
    then have "inCanvas d1 i j" by (simp add: same)
    with d'(5) have "pixel d' i j =
        (if x + 1 \<le> i \<and> i < urx \<and> lly \<le> j \<and> j < ury then c else pixel d1 i j)" by blast
    moreover from d1(5) ic have "pixel d1 i j =
        (if i = x \<and> lly \<le> j \<and> j < ury then c else pixel d i j)" by blast
    ultimately show "pixel d' i j =
        (if x \<le> i \<and> i < urx \<and> lly \<le> j \<and> j < ury then c else pixel d i j)"
      using lt by auto
  qed
  moreover have "[x..urx - 1] = x # [x + 1..urx - 1]" using lt by (rule upto_step)
  ultimately show ?case using d'(1-4) d1(3,4) step by simp
qed

lemma set_box:
  "set (concat (map (\<lambda>i. map (Pair i) [ly..uy - 1]) [lx..ux - 1])) =
     {(x, y). lx \<le> x \<and> x < ux \<and> ly \<le> y \<and> y < uy}"
  by (auto simp: image_iff)

lemma wf_canvas10: "wf_Display canvas10"
  by (simp add: wf_Display_def canvas10_def list_all_iff)

lemma colorUnknown_red [simp]: "\<not> colorUnknown red"
  by (simp add: colorUnknown_def red_def ColorMap_def)

lemma colorUnknown_white [simp]: "\<not> colorUnknown white"
  by (simp add: colorUnknown_def white_def ColorMap_def)

section \<open>Rectangles paint their half-open box\<close>

text \<open>
  C1.  On a well-formed canvas, a rectangle whose two corners are in bounds and whose
  colour is in the palette is drawn without error; the pixels it paints are exactly those
  of the half-open box \<open>[ll.x, ur.x) \<times> [ll.y, ur.y)\<close>, each of them holds the fill colour
  afterwards and every other pixel of the canvas is unchanged; with \<open>ll = ur\<close> nothing
  is painted.
\<close>

theorem Rectangle_draw_paints_box:
  assumes "wf_Display d"
    and "\<not> outOfBounds (rect_ll r) Display_screen d"
    and "\<not> outOfBounds (rect_ur r) Display_screen d"
    and "\<not> colorUnknown (rect_c r)"
  shows "\<exists>d' painted.
           Rectangle_draw (recording Display_screen) r (d, []) = Some (None, (d', painted)) \<and>
           set painted = {(x, y). px (rect_ll r) \<le> x \<and> x < px (rect_ur r) \<and>
                                  py (rect_ll r) \<le> y \<and> y < py (rect_ur r)} \<and>
           (\<forall>x y. inCanvas d x y \<longrightarrow>
              pixel d' x y =
                (if px (rect_ll r) \<le> x \<and> x < px (rect_ur r) \<and>
                    py (rect_ll r) \<le> y \<and> y < py (rect_ur r)
                 then rect_c r else pixel d x y)) \<and>
           (rect_ll r = rect_ur r \<longrightarrow> painted = [])"
proof -
  from assms(2,3) have b: "0 \<le> px (rect_ll r)" "px (rect_ur r) \<le> maxX d"
      "0 \<le> py (rect_ll r)" "py (rect_ur r) \<le> maxY d"
    by (auto simp: outOfBounds_def Display_screen_def Display_getMaxXY_def)
  from assms(2,3) have nb: "\<not> outOfBounds (rect_ll r) (recording Display_screen) (d, [])"
      "\<not> outOfBounds (rect_ur r) (recording Display_screen) (d, [])"
    by (simp_all add: outOfBounds_def Display_screen_def Display_getMaxXY_def recording_def)
  from rect_loop_x_RD [OF assms(1,4) b, where painted = "[]"]
  obtain d' where d': "rect_loop_x (recording Display_screen) (rect_c r) (py (rect_ll r))
        (px (rect_ur r)) (py (rect_ur r)) (px (rect_ll r)) (d, []) =
       Some (None, (d', concat (map (\<lambda>i. map (Pair i) [py (rect_ll r)..py (rect_ur r) - 1])
          [px (rect_ll r)..px (rect_ur r) - 1])))"
     "\<forall>i j. inCanvas d i j \<longrightarrow>
              pixel d' i j =
                (if px (rect_ll r) \<le> i \<and> i < px (rect_ur r) \<and>
                    py (rect_ll r) \<le> j \<and> j < py (rect_ur r) then rect_c r else pixel d i j)"
    by (elim exE conjE) simp
  have "Rectangle_draw (recording Display_screen) r (d, []) =
      Some (None, (d', concat (map (\<lambda>i. map (Pair i) [py (rect_ll r)..py (rect_ur r) - 1])
          [px (rect_ll r)..px (rect_ur r) - 1])))"
    using nb assms(4) d'(1) by (simp add: Rectangle_draw_def)
  moreover have "rect_ll r = rect_ur r \<Longrightarrow>
     concat (map (\<lambda>i. map (Pair i) [py (rect_ll r)..py (rect_ur r) - 1])
          [px (rect_ll r)..px (rect_ur r) - 1]) = []"
    by simp
  ultimately show ?thesis using d'(2) set_box [of "py (rect_ll r)" "py (rect_ur r)" "px (rect_ll r)" "px (rect_ur r)"]
    by (intro exI conjI) (assumption, simp_all)
qed

theorem Rectangle_draw_paints_box_witness:
  "wf_Display canvas10 \<and>
   \<not> outOfBounds (rect_ll rect_2_5) Display_screen canvas10 \<and>
   \<not> outOfBounds (rect_ur rect_2_5) Display_screen canvas10 \<and>
   \<not> colorUnknown (rect_c rect_2_5) \<and>
   (\<exists>d' painted.
      Rectangle_draw (recording Display_screen) rect_2_5 (canvas10, []) =
        Some (None, (d', painted)) \<and>
      set painted = {(x, y). 2 \<le> x \<and> x < 5 \<and> 2 \<le> y \<and> y < 5})"
proof -
  have h1: "wf_Display canvas10" by (rule wf_canvas10)
  have h2: "\<not> outOfBounds (rect_ll rect_2_5) Display_screen canvas10"
    by (simp add: outOfBounds_def Display_screen_def Display_getMaxXY_def canvas10_def rect_2_5_def)
  have h3: "\<not> outOfBounds (rect_ur rect_2_5) Display_screen canvas10"
    by (simp add: outOfBounds_def Display_screen_def Display_getMaxXY_def canvas10_def rect_2_5_def)
  have h4: "\<not> colorUnknown (rect_c rect_2_5)" by (simp add: rect_2_5_def)
  from Rectangle_draw_paints_box [OF h1 h2 h3 h4] h1 h2 h3 h4 show ?thesis
    by (simp add: rect_2_5_def) blast
qed

lemma colorUnknown_pink [simp]: "colorUnknown pink"
  by (simp add: colorUnknown_def pink_def ColorMap_def)

lemma colorUnknown_green [simp]: "\<not> colorUnknown green"
  by (simp add: colorUnknown_def green_def ColorMap_def)

section \<open>Unknown colours and the order of the two checks\<close>

text \<open>
  C5, as stated, asks for \<open>invalidColor\<close> even when the shape is out of bounds.  The rectangle
  below has a colour outside the palette and a corner outside the canvas: \<open>draw\<close> returns
  \<open>errOutOfBounds\<close>, not \<open>invalidColor\<close>.
\<close>

theorem unknown_color_rect_out_of_bounds:
  "colorUnknown (rect_c rect_far_pink) \<and>
   Rectangle_draw (recording Display_screen) rect_far_pink (canvas10, []) =
     Some (Some errOutOfBounds, (canvas10, [])) \<and>
   Rectangle_draw (recording Display_screen) rect_far_pink (canvas10, []) \<noteq>
     Some (Some invalidColor, (canvas10, []))"
  by (simp add: Rectangle_draw_def outOfBounds_def rect_far_pink_def canvas10_def)

text \<open>
  C5, amended.  On every screen, a shape whose colour is not in the palette is not painted
  at all (the state of the screen is returned as it was, no \<open>drawPixel\<close> call is made) and
  \<open>draw\<close> returns \<open>errOutOfBounds\<close> when the bounds check of the shape fails, and
  \<open>invalidColor\<close> otherwise: the bounds check comes first.
\<close>

theorem draw_unknown_color:
  "(colorUnknown (rect_c r) \<longrightarrow>
      Rectangle_draw scn r s =
        Some (Some (if outOfBounds (rect_ll r) scn s \<or> outOfBounds (rect_ur r) scn s
                    then errOutOfBounds else invalidColor), s)) \<and>
   (colorUnknown (tri_c t) \<longrightarrow>
      Triangle_draw scn t s =
        Some (Some (if outOfBounds (tri_pt0 t) scn s \<or> outOfBounds (tri_pt1 t) scn s \<or>
                       outOfBounds (tri_pt2 t) scn s
                    then errOutOfBounds else invalidColor), s)) \<and>
   (colorUnknown (circ_c c) \<longrightarrow>
      Circle_draw scn c s =
        Some (Some (if sub64 (px (circ_center c)) (circ_r c) < 0 \<or> sub64 (py (circ_center c)) (circ_r c) < 0 \<or>
                       add64 (px (circ_center c)) (circ_r c) \<ge> fst (getMaxXY scn s) \<or>
                       add64 (py (circ_center c)) (circ_r c) \<ge> snd (getMaxXY scn s)
                    then errOutOfBounds else invalidColor), s))"
  by (auto simp: Rectangle_draw_def Triangle_draw_unfold Circle_draw_def split: prod.splits)

theorem draw_unknown_color_witness:
  "colorUnknown (rect_c rect_pink) \<and> colorUnknown (tri_c tri_pink) \<and>
   colorUnknown (circ_c circ_far_pink) \<and>
   Rectangle_draw (recording Display_screen) rect_pink (canvas10, []) =
     Some (Some invalidColor, (canvas10, [])) \<and>
   Triangle_draw (recording Display_screen) tri_pink (canvas10, []) =
     Some (Some invalidColor, (canvas10, [])) \<and>
   Circle_draw (recording Display_screen) circ_far_pink (canvas10, []) =
     Some (Some errOutOfBounds, (canvas10, []))"
  using draw_unknown_color [of rect_pink "recording Display_screen" "(canvas10, [])" tri_pink
      circ_far_pink]
  by (simp add: rect_pink_def tri_pink_def circ_far_pink_def outOfBounds_def canvas10_def
      add64_def sub64_def wrap64_def)

section \<open>Rounding to a double\<close>

lemma pow2_pos [simp]: "0 < pow2 e"
  by (simp add: pow2_def)

lemma pow2_add: "pow2 (a + b) = pow2 a * pow2 b"
proof -
  have "pow2 e = 2 powi e" for e
    by (simp add: pow2_def power_int_def field_simps)
  then show ?thesis by (simp add: power_int_add)
qed

lemma pow2_nat: "0 \<le> e \<Longrightarrow> pow2 e = 2 ^ nat e"
  by (simp add: pow2_def)

lemma pow2_mono: "a \<le> b \<Longrightarrow> pow2 a \<le> pow2 b"
proof -
  assume "a \<le> b"
  then have "pow2 b = pow2 a * pow2 (b - a)" using pow2_add [of a "b - a"] by simp
  moreover have "1 \<le> pow2 (b - a)" using \<open>a \<le> b\<close> by (simp add: pow2_nat)
  ultimately show ?thesis using pow2_pos [of a] by (simp add: mult_le_cancel_left1 del: pow2_pos)
qed

lemma flog2_bounds:
  assumes "x \<noteq> 0"
  shows "pow2 (flog2 x) \<le> \<bar>x\<bar>" and "\<bar>x\<bar> < pow2 (flog2 x + 1)"
proof -
  have "pow2 (flog2 x) \<le> \<bar>x\<bar> \<and> \<bar>x\<bar> < pow2 (flog2 x + 1)"
  proof (cases "1 \<le> \<bar>x\<bar>")
    case True
    define n where "n = \<lfloor>\<bar>x\<bar>\<rfloor>"
    have n1: "1 \<le> n" using True by (simp add: n_def le_floor_iff)
    then have b1: "1 \<le> bitlen n" by (simp add: bitlen_alt_def)
    from bitlen_bounds [of n] n1
    have lo: "2 ^ nat (bitlen n - 1) \<le> n" and hi: "n < 2 ^ nat (bitlen n)" by simp_all
    have f: "flog2 x = bitlen n - 1" using True by (simp add: flog2_def n_def)
    have "(of_int n :: rat) \<le> \<bar>x\<bar>" by (simp add: n_def)
    moreover from lo have "(2::rat) ^ nat (bitlen n - 1) \<le> of_int n"
      by (metis of_int_le_iff of_int_numeral of_int_power)
    ultimately have "(2::rat) ^ nat (bitlen n - 1) \<le> \<bar>x\<bar>" by (rule order_trans [rotated])
    then have 1: "pow2 (flog2 x) \<le> \<bar>x\<bar>" using b1 by (simp add: f pow2_nat)
    from hi have "n + 1 \<le> 2 ^ nat (bitlen n)" by simp
    then have "(of_int (n + 1) :: rat) \<le> 2 ^ nat (bitlen n)"
      by (metis of_int_le_iff of_int_numeral of_int_power)
    moreover have "\<bar>x\<bar> < of_int (n + 1)" using floor_correct [of "\<bar>x\<bar>"] by (simp add: n_def)
    ultimately have "\<bar>x\<bar> < 2 ^ nat (bitlen n)" by (rule less_le_trans [rotated])
    then have 2: "\<bar>x\<bar> < pow2 (flog2 x + 1)" using b1 by (simp add: f pow2_nat)
    from 1 2 show ?thesis ..
  next
    case False
    define y where "y = 1 / \<bar>x\<bar>"
    define N where "N = \<lceil>y\<rceil>"
    define b where "b = bitlen (N - 1)"
    have xpos: "0 < \<bar>x\<bar>" using assms by simp
    have y1: "1 < y" using False xpos by (simp add: y_def)
    have N2: "2 \<le> N" using y1 by (simp add: N_def le_ceiling_iff)
    then have b1: "1 \<le> b" by (simp add: b_def bitlen_alt_def)
    from bitlen_bounds [of "N - 1"] N2
    have lo: "2 ^ nat (b - 1) \<le> N - 1" and hi: "N - 1 < 2 ^ nat b" by (simp_all add: b_def)
    have f: "flog2 x = - b" using False by (simp add: flog2_def b_def N_def y_def)
    have yN: "y \<le> of_int N" and Ny: "of_int (N - 1) < y"
      by (simp_all add: N_def ceiling_correct le_of_int_ceiling)
    from hi have "N \<le> 2 ^ nat b" by simp
    then have "(of_int N :: rat) \<le> 2 ^ nat b"
      by (metis of_int_le_iff of_int_numeral of_int_power)
    with yN have "y \<le> 2 ^ nat b" by (rule order_trans)
    then have "1 / 2 ^ nat b \<le> \<bar>x\<bar>" using xpos by (simp add: y_def field_simps)
    then have 1: "pow2 (flog2 x) \<le> \<bar>x\<bar>" using b1 by (simp add: f pow2_def)
    from lo have "(2::rat) ^ nat (b - 1) \<le> of_int (N - 1)"
      by (metis of_int_le_iff of_int_numeral of_int_power)
    from this Ny have "2 ^ nat (b - 1) < y" by (rule le_less_trans)
    then have "\<bar>x\<bar> < 1 / 2 ^ nat (b - 1)" using xpos by (simp add: y_def field_simps)
    moreover have "pow2 (- b + 1) = 1 / 2 ^ nat (b - 1)"
      using b1 by (cases "b = 1") (simp_all add: pow2_def)
    ultimately have 2: "\<bar>x\<bar> < pow2 (flog2 x + 1)" by (simp add: f)
    from 1 2 show ?thesis ..
  qed
  then show "pow2 (flog2 x) \<le> \<bar>x\<bar>" and "\<bar>x\<bar> < pow2 (flog2 x + 1)" by simp_all
qed


lemma round_half_even_le: "v \<le> of_int m \<Longrightarrow> round_half_even v \<le> m"
proof -
  assume a: "v \<le> of_int m"
  then have k: "\<lfloor>v\<rfloor> \<le> m" by (simp add: floor_le_iff)
  show ?thesis
  proof (cases "\<lfloor>v\<rfloor> = m")
    case True
    with a have "v = of_int \<lfloor>v\<rfloor>" using of_int_floor_le [of v] by simp
    then have "v - of_int \<lfloor>v\<rfloor> = 0" by simp
    then show ?thesis using True by (simp add: round_half_even_def Let_def)
  next
    case False
    with k have "\<lfloor>v\<rfloor> + 1 \<le> m" by simp
    then show ?thesis by (simp add: round_half_even_def Let_def)
  qed
qed

lemma round_half_even_ge: "of_int m \<le> v \<Longrightarrow> m \<le> round_half_even v"
proof -
  assume "of_int m \<le> v"
  then have "m \<le> \<lfloor>v\<rfloor>" by (simp add: le_floor_iff)
  then show ?thesis by (simp add: round_half_even_def Let_def)
qed

lemma round_half_even_of_int [simp]: "round_half_even (of_int m) = m"
  using round_half_even_le [of "of_int m" m] round_half_even_ge [of m "of_int m"] by simp

lemma fl_neg: "x < 0 \<Longrightarrow> fl x < 0"
proof -
  assume x: "x < 0"
  define q where "q = pow2 (flog2 x - 52)"
  have q: "0 < q" by (simp add: q_def)
  have "q \<le> pow2 (flog2 x)" unfolding q_def by (rule pow2_mono) simp
  also have "\<dots> \<le> \<bar>x\<bar>" using flog2_bounds(1) [of x] x by simp
  finally have "q \<le> - x" using x by simp
  then have "x / q \<le> of_int (- 1)" using q by (simp add: field_simps)
  then have "round_half_even (x / q) \<le> - 1" by (rule round_half_even_le)
  then have "(of_int (round_half_even (x / q)) :: rat) < 0" by simp
  then have "of_int (round_half_even (x / q)) * q < 0" using q by (simp add: mult_less_0_iff)
  then show ?thesis using x by (simp add: fl_def q_def Let_def)
qed

lemma isqrt_nonneg: "0 \<le> isqrt n"
proof (induction n rule: isqrt.induct)
  case (1 n)
  show ?case
  proof (cases "n < 1")
    case True
    then show ?thesis by (subst isqrt.simps) simp
  next
    case False
    with "1.IH" have "0 \<le> isqrt (n div 4)" by simp
    with False show ?thesis by (subst isqrt.simps) (simp add: Let_def)
  qed
qed

lemma fl_sqrt_nonneg: "0 \<le> fl_sqrt x"
proof (cases "x \<le> 0")
  case True
  then show ?thesis by (simp add: fl_sqrt_def)
next
  case False
  define q where "q = pow2 (flog2 x div 2 - 52)"
  define k where "k = isqrt \<lfloor>x / (q * q)\<rfloor>"
  have "fl_sqrt x = of_int k * q \<or> fl_sqrt x = of_int (k + 1) * q"
    using False by (simp add: fl_sqrt_def Let_def q_def k_def)
  moreover have "0 \<le> k" unfolding k_def by (rule isqrt_nonneg)
  moreover have "0 < q" by (simp add: q_def)
  ultimately show ?thesis by auto
qed

lemma sqrt_not_le_negative: "w < 0 \<Longrightarrow> \<not> f64_le (f64_sqrt (Finite z)) (Finite w)"
  using fl_sqrt_nonneg [of z] by simp

lemma insideCircle_negative_radius:
  assumes "r < 0"
  shows "\<not> insideCircle center tile (f64_of_int r)"
proof -
  have "fl (of_int r) < 0" using assms by (intro fl_neg) simp
  then show ?thesis
    by (simp add: insideCircle_def f64_of_int_def Let_def sqrt_not_le_negative del: f64_sqrt.simps)
qed

lemma circ_loop_x_nothing_inside:
  assumes "\<And>x y. \<not> insideCircle (circ_center c) \<lparr>px = x, py = y\<rparr> (f64_of_int (circ_r c))"
  shows "circ_loop_x scn c mX mY y x s = Some s"
proof (induction "nat (add64 (px (circ_center c)) (circ_r c) + 1 - x)" arbitrary: x)
  case 0
  then show ?case by (simp add: circ_loop_x_stop)
next
  case (Suc n)
  then have lt: "x \<le> add64 (px (circ_center c)) (circ_r c)" by linarith
  have "n = nat (add64 (px (circ_center c)) (circ_r c) + 1 - (x + 1))" using Suc.hyps(2) by linarith
  from Suc.hyps(1) [OF this] show ?case using assms by (simp add: circ_loop_x_step [OF lt])
qed

lemma circ_loop_y_nothing_inside:
  assumes "\<And>x y. \<not> insideCircle (circ_center c) \<lparr>px = x, py = y\<rparr> (f64_of_int (circ_r c))"
  shows "circ_loop_y scn c mX mY y s = Some s"
proof (induction "nat (add64 (py (circ_center c)) (circ_r c) + 1 - y)" arbitrary: y)
  case 0
  then show ?case by (simp add: circ_loop_y_stop)
next
  case (Suc n)
  then have lt: "y \<le> add64 (py (circ_center c)) (circ_r c)" by linarith
  have "n = nat (add64 (py (circ_center c)) (circ_r c) + 1 - (y + 1))" using Suc.hyps(2) by linarith
  from Suc.hyps(1) [OF this] show ?case
    by (simp add: circ_loop_y_step [OF lt] circ_loop_x_nothing_inside [OF assms])
qed

section \<open>Circles of negative radius\<close>

text \<open>
  C10, as stated, fails where the 64-bit arithmetic of the bounds test wraps.  The circle
  below has centre \<open>(5, 5)\<close>, the least radius an \<open>int\<close> can hold and a colour of the
  palette; the four inequalities of the claim hold of the integers, but \<open>c.center.x - c.r\<close>
  wraps to a negative number and \<open>draw\<close> returns \<open>errOutOfBounds\<close>.
\<close>

theorem negative_radius_wraps:
  "circ_r circ_min < 0 \<and> \<not> colorUnknown (circ_c circ_min) \<and>
   getMaxXY (recording Display_screen) (canvas10, []) = (10, 10) \<and>
   px (circ_center circ_min) - circ_r circ_min \<ge> 0 \<and>
   py (circ_center circ_min) - circ_r circ_min \<ge> 0 \<and>
   px (circ_center circ_min) + circ_r circ_min < 10 \<and>
   py (circ_center circ_min) + circ_r circ_min < 10 \<and>
   Circle_draw (recording Display_screen) circ_min (canvas10, []) =
     Some (Some errOutOfBounds, (canvas10, []))"
  by (simp add: circ_min_def Circle_draw_def canvas10_def add64_def sub64_def wrap64_def)

text \<open>
  C10, amended.  A circle with negative radius \<open>r\<close> and a colour of the palette, whose
  centre passes the bounds test as the code computes it (\<open>cx - r \<ge> 0\<close>, \<open>cy - r \<ge> 0\<close>,
  \<open>cx + r < width\<close>, \<open>cy + r < height\<close> in wrapping 64-bit arithmetic), is drawn without
  error and without any \<open>drawPixel\<close> call: the screen is returned unchanged.  No pixel
  passes the distance test, since a distance is never below a negative radius.
\<close>

theorem Circle_draw_negative_radius:
  assumes "circ_r c < 0" and "\<not> colorUnknown (circ_c c)"
    and "getMaxXY scn s = (width, height)"
    and "sub64 (px (circ_center c)) (circ_r c) \<ge> 0"
    and "sub64 (py (circ_center c)) (circ_r c) \<ge> 0"
    and "add64 (px (circ_center c)) (circ_r c) < width"
    and "add64 (py (circ_center c)) (circ_r c) < height"
  shows "Circle_draw scn c s = Some (None, s)"
proof -
  have "circ_loop_y scn c width height (sub64 (py (circ_center c)) (circ_r c)) s = Some s"
    by (rule circ_loop_y_nothing_inside) (rule insideCircle_negative_radius [OF assms(1)])
  then show ?thesis using assms by (simp add: Circle_draw_def)
qed

theorem Circle_draw_negative_radius_witness:
  "circ_r circ_neg < 0 \<and> \<not> colorUnknown (circ_c circ_neg) \<and>
   getMaxXY (recording Display_screen) (canvas10, []) = (10, 10) \<and>
   sub64 (px (circ_center circ_neg)) (circ_r circ_neg) \<ge> 0 \<and>
   sub64 (py (circ_center circ_neg)) (circ_r circ_neg) \<ge> 0 \<and>
   add64 (px (circ_center circ_neg)) (circ_r circ_neg) < 10 \<and>
   add64 (py (circ_center circ_neg)) (circ_r circ_neg) < 10 \<and>
   Circle_draw (recording Display_screen) circ_neg (canvas10, []) = Some (None, (canvas10, []))"
proof -
  have h: "circ_r circ_neg < 0" "\<not> colorUnknown (circ_c circ_neg)"
    "getMaxXY (recording Display_screen) (canvas10, []) = (10, 10)"
    "sub64 (px (circ_center circ_neg)) (circ_r circ_neg) \<ge> 0"
    "sub64 (py (circ_center circ_neg)) (circ_r circ_neg) \<ge> 0"
    "add64 (px (circ_center circ_neg)) (circ_r circ_neg) < 10"
    "add64 (py (circ_center circ_neg)) (circ_r circ_neg) < 10"
    by (simp_all add: circ_neg_def canvas10_def add64_def sub64_def wrap64_def)
  from Circle_draw_negative_radius [OF h] h show ?thesis by simp
qed

section \<open>Errors of \<open>drawPixel\<close> during painting\<close>

text \<open>
  C6.  On a screen whose first \<open>drawPixel\<close> call returns an error and whose later calls
  succeed, the rectangle stops at the error and returns it, as the claim says.  The
  triangle and the circle drop the value returned by \<open>drawPixel\<close>: they go on, paint
  fourteen and four more pixels, and return \<open>nil\<close>.
\<close>

theorem painting_error_dropped:
  "Triangle_draw (recording first_fails) tri_flat (0, []) =
     Some (None, (15,
       [(1, 0), (2, 0), (3, 0), (4, 0), (0, 1), (1, 1), (2, 1), (3, 1), (1, 2),
        (2, 2), (3, 2), (1, 3), (2, 3), (2, 4)])) \<and>
   Circle_draw (recording first_fails) circ_1 (0, []) =
     Some (None, (5, [(0, 1), (1, 1), (2, 1), (1, 2)])) \<and>
   Rectangle_draw (recording first_fails) rect_1 (0, []) = Some (Some errOutOfBounds, (1, []))"
  by code_simp

section \<open>What every draw preserves\<close>

text \<open>
  A property of the screen state that each \<open>drawPixel\<close> call preserves is preserved by
  every loop of the three shapes, and so by each \<open>draw\<close>.
\<close>

lemma rect_loop_y_preserves:
  assumes step: "\<And>s x y c e s'. P s \<Longrightarrow> drawPixel scn s x y c = Some (e, s') \<Longrightarrow> P s'"
  shows "P s \<Longrightarrow> rect_loop_y scn c x ury y s = Some (e, s') \<Longrightarrow> P s'"
proof (induction "nat (ury - y)" arbitrary: y s)
  case 0
  then show ?case by (simp add: rect_loop_y_stop)
next
  case (Suc n)
  then have lt: "y < ury" by linarith
  from Suc.prems(2) lt obtain e1 s1 where d: "drawPixel scn s x y c = Some (e1, s1)"
    by (auto simp: rect_loop_y_step split: option.splits)
  have P1: "P s1" using step [OF Suc.prems(1) d] .
  show ?case
  proof (cases e1)
    case None
    with lt d Suc.prems(2) have "rect_loop_y scn c x ury (y + 1) s1 = Some (e, s')"
      by (simp add: rect_loop_y_step)
    moreover have "n = nat (ury - (y + 1))" using Suc.hyps(2) by linarith
    ultimately show ?thesis using Suc.hyps(1) P1 by blast
  next
    case (Some err)
    with lt d Suc.prems(2) P1 show ?thesis
      by (simp add: rect_loop_y_step)
  qed
qed

lemma rect_loop_x_preserves:
  assumes step: "\<And>s x y c e s'. P s \<Longrightarrow> drawPixel scn s x y c = Some (e, s') \<Longrightarrow> P s'"
  shows "P s \<Longrightarrow> rect_loop_x scn c lly urx ury x s = Some (e, s') \<Longrightarrow> P s'"
proof (induction "nat (urx - x)" arbitrary: x s)
  case 0
  then show ?case by (simp add: rect_loop_x_stop)
next
  case (Suc n)
  then have lt: "x < urx" by linarith
  from Suc.prems(2) lt obtain e1 s1 where d: "rect_loop_y scn c x ury lly s = Some (e1, s1)"
    by (auto simp: rect_loop_x_step split: option.splits)
  have P1: "P s1" by (rule rect_loop_y_preserves [where P = P and scn = scn, OF _ Suc.prems(1) d]) (rule step; assumption)
  show ?case
  proof (cases e1)
    case None
    with lt d Suc.prems(2) have "rect_loop_x scn c lly urx ury (x + 1) s1 = Some (e, s')"
      by (simp add: rect_loop_x_step)
    moreover have "n = nat (urx - (x + 1))" using Suc.hyps(2) by linarith
    ultimately show ?thesis using Suc.hyps(1) P1 by blast
  next
    case (Some err)
    with lt d Suc.prems(2) P1 show ?thesis
      by (simp add: rect_loop_x_step)
  qed
qed

lemma tri_loop_x_preserves:
  assumes step: "\<And>s x y c e s'. P s \<Longrightarrow> drawPixel scn s x y c = Some (e, s') \<Longrightarrow> P s'"
  shows "P s \<Longrightarrow> tri_loop_x scn c xr y x s = Some s' \<Longrightarrow> P s'"
proof (induction "nat (xr + 1 - x)" arbitrary: x s)
  case 0
  then show ?case by (simp add: tri_loop_x_stop)
next
  case (Suc n)
  then have lt: "x \<le> xr" by linarith
  from Suc.prems(2) lt obtain e1 s1 where d: "drawPixel scn s x y c = Some (e1, s1)"
    by (auto simp: tri_loop_x_step split: option.splits)
  have P1: "P s1" using step [OF Suc.prems(1) d] .
  from lt d Suc.prems(2) have "tri_loop_x scn c xr y (x + 1) s1 = Some s'"
    by (simp add: tri_loop_x_step)
  moreover have "n = nat (xr + 1 - (x + 1))" using Suc.hyps(2) by linarith
  ultimately show ?case using Suc.hyps(1) P1 by blast
qed

lemma tri_loop_y_Some:
  assumes "tri_loop_y scn c xl xr y0 y2 y s = Some s'" "y \<le> y2"
  shows "\<exists>s1.
      \<not> (y - y0 < 0 \<or> nat (y - y0) \<ge> length xl \<or> nat (y - y0) \<ge> length xr) \<and>
      tri_loop_x scn c (xr ! nat (y - y0)) y (xl ! nat (y - y0)) s = Some s1 \<and>
      tri_loop_y scn c xl xr y0 y2 (y + 1) s1 = Some s'"
proof -
  let ?bad = "y - y0 < 0 \<or> nat (y - y0) \<ge> length xl \<or> nat (y - y0) \<ge> length xr"
  from assms have e: "(if ?bad then None
         else (case tri_loop_x scn c (xr ! nat (y - y0)) y (xl ! nat (y - y0)) s of
                 None \<Rightarrow> None
               | Some s' \<Rightarrow> tri_loop_y scn c xl xr y0 y2 (y + 1) s')) = Some s'"
    by (simp only: tri_loop_y_step [OF assms(2), of scn c xl xr y0 s])
  have nb: "\<not> ?bad"
  proof
    assume b: ?bad
    have "(if ?bad then None
         else (case tri_loop_x scn c (xr ! nat (y - y0)) y (xl ! nat (y - y0)) s of
                 None \<Rightarrow> None
               | Some s' \<Rightarrow> tri_loop_y scn c xl xr y0 y2 (y + 1) s')) = None"
      by (simp only: b if_True)
    with e show False by (simp only: option.distinct)
  qed
  show ?thesis
  proof (cases "tri_loop_x scn c (xr ! nat (y - y0)) y (xl ! nat (y - y0)) s")
    case None
    with e nb show ?thesis by (simp only: if_False option.case option.distinct simp_thms)
  next
    case (Some s1)
    with e nb show ?thesis by (simp only: if_False option.case option.inject simp_thms ex_simps)
  qed
qed

lemma tri_loop_y_preserves:
  assumes step: "\<And>s x y c e s'. P s \<Longrightarrow> drawPixel scn s x y c = Some (e, s') \<Longrightarrow> P s'"
  shows "P s \<Longrightarrow> tri_loop_y scn c xl xr y0 y2 y s = Some s' \<Longrightarrow> P s'"
proof (induction "nat (y2 + 1 - y)" arbitrary: y s)
  case 0
  then show ?case by (simp add: tri_loop_y_stop)
next
  case (Suc n)
  then have lt: "y \<le> y2" by linarith
  from tri_loop_y_Some [OF Suc.prems(2) lt] obtain s1 where
    d: "tri_loop_x scn c (xr ! nat (y - y0)) y (xl ! nat (y - y0)) s = Some s1"
    and r: "tri_loop_y scn c xl xr y0 y2 (y + 1) s1 = Some s'"
    by blast
  have P1: "P s1" by (rule tri_loop_x_preserves [where P = P and scn = scn, OF _ Suc.prems(1) d]) (rule step; assumption)
  moreover have "n = nat (y2 + 1 - (y + 1))" using Suc.hyps(2) by linarith
  ultimately show ?case using Suc.hyps(1) r by blast
qed

lemma circ_loop_x_preserves:
  assumes step: "\<And>s x y c e s'. P s \<Longrightarrow> drawPixel scn s x y c = Some (e, s') \<Longrightarrow> P s'"
  shows "P s \<Longrightarrow> circ_loop_x scn c mX mY y x s = Some s' \<Longrightarrow> P s'"
proof (induction "nat (add64 (px (circ_center c)) (circ_r c) + 1 - x)" arbitrary: x s)
  case 0
  then show ?case by (simp add: circ_loop_x_stop)
next
  case (Suc n)
  then have lt: "x \<le> add64 (px (circ_center c)) (circ_r c)" by linarith
  have n: "n = nat (add64 (px (circ_center c)) (circ_r c) + 1 - (x + 1))" using Suc.hyps(2) by linarith
  from Suc.prems(2) lt have "\<exists>s1.
      (s1 = s \<or> (\<exists>e1. drawPixel scn s x y (circ_c c) = Some (e1, s1))) \<and>
      circ_loop_x scn c mX mY y (x + 1) s1 = Some s'"
    by (auto simp: circ_loop_x_step split: option.splits if_splits prod.splits)
  then obtain s1 where
    d: "s1 = s \<or> (\<exists>e1. drawPixel scn s x y (circ_c c) = Some (e1, s1))"
    and r: "circ_loop_x scn c mX mY y (x + 1) s1 = Some s'"
    by blast
  have P1: "P s1" using d step [OF Suc.prems(1)] Suc.prems(1) by blast
  with n r show ?case using Suc.hyps(1) by blast
qed

lemma circ_loop_y_preserves:
  assumes step: "\<And>s x y c e s'. P s \<Longrightarrow> drawPixel scn s x y c = Some (e, s') \<Longrightarrow> P s'"
  shows "P s \<Longrightarrow> circ_loop_y scn c mX mY y s = Some s' \<Longrightarrow> P s'"
proof (induction "nat (add64 (py (circ_center c)) (circ_r c) + 1 - y)" arbitrary: y s)
  case 0
  then show ?case by (simp add: circ_loop_y_stop)
next
  case (Suc n)
  then have lt: "y \<le> add64 (py (circ_center c)) (circ_r c)" by linarith
  have n: "n = nat (add64 (py (circ_center c)) (circ_r c) + 1 - (y + 1))" using Suc.hyps(2) by linarith
  from Suc.prems(2) lt have "\<exists>s1.
      circ_loop_x scn c mX mY y (sub64 (px (circ_center c)) (circ_r c)) s = Some s1 \<and>
      circ_loop_y scn c mX mY (y + 1) s1 = Some s'"
    by (auto simp: circ_loop_y_step split: option.splits if_splits)
  then obtain s1 where
    d: "circ_loop_x scn c mX mY y (sub64 (px (circ_center c)) (circ_r c)) s = Some s1"
    and r: "circ_loop_y scn c mX mY (y + 1) s1 = Some s'"
    by blast
  have P1: "P s1" by (rule circ_loop_x_preserves [where P = P and scn = scn, OF _ Suc.prems(1) d]) (rule step; assumption)
  with n r show ?case using Suc.hyps(1) by blast
qed

lemma Rectangle_draw_preserves:
  assumes step: "\<And>s x y c e s'. P s \<Longrightarrow> drawPixel scn s x y c = Some (e, s') \<Longrightarrow> P s'"
    and "P s" and "Rectangle_draw scn r s = Some (e, s')"
  shows "P s'"
proof -
  from assms(3) have "s' = s \<or>
      rect_loop_x scn (rect_c r) (py (rect_ll r)) (px (rect_ur r)) (py (rect_ur r))
             (px (rect_ll r)) s = Some (e, s')"
    by (simp add: Rectangle_draw_def split: if_splits)
  then show ?thesis
  proof
    assume "s' = s" with assms(2) show ?thesis by simp
  next
    assume l: "rect_loop_x scn (rect_c r) (py (rect_ll r)) (px (rect_ur r)) (py (rect_ur r))
             (px (rect_ll r)) s = Some (e, s')"
    show ?thesis
      by (rule rect_loop_x_preserves [where P = P and scn = scn, OF _ assms(2) l]) (rule step; assumption)
  qed
qed

lemma Circle_draw_preserves:
  assumes step: "\<And>s x y c e s'. P s \<Longrightarrow> drawPixel scn s x y c = Some (e, s') \<Longrightarrow> P s'"
    and "P s" and "Circle_draw scn c s = Some (e, s')"
  shows "P s'"
proof -
  obtain mX mY where m: "getMaxXY scn s = (mX, mY)" by (cases "getMaxXY scn s")
  from assms(3) m have "s' = s \<or>
      circ_loop_y scn c mX mY (sub64 (py (circ_center c)) (circ_r c)) s = Some s'"
    by (simp add: Circle_draw_def split: if_splits option.splits)
  then show ?thesis
  proof
    assume "s' = s" with assms(2) show ?thesis by simp
  next
    assume l: "circ_loop_y scn c mX mY (sub64 (py (circ_center c)) (circ_r c)) s = Some s'"
    show ?thesis
      by (rule circ_loop_y_preserves [where P = P and scn = scn, OF _ assms(2) l]) (rule step; assumption)
  qed
qed

lemma Triangle_draw_Some:
  assumes "Triangle_draw scn t s = Some (e, s')"
  shows "s' = s \<or> (\<exists>xl xr. tri_loop_y scn (tri_c (sortVertices t)) xl xr
     (py (tri_pt0 (sortVertices t))) (py (tri_pt2 (sortVertices t)))
     (py (tri_pt0 (sortVertices t))) s = Some s')"
proof (cases "outOfBounds (tri_pt0 t) scn s \<or> outOfBounds (tri_pt1 t) scn s \<or>
         outOfBounds (tri_pt2 t) scn s \<or> colorUnknown (tri_c t)")
  case True
  with assms show ?thesis by (auto simp: Triangle_draw_unfold split: if_splits)
next
  case False
  let ?t = "sortVertices t"
  from False assms obtain x01 x12 x02 where
    i: "interpolate (py (tri_pt0 ?t)) (px (tri_pt0 ?t)) (py (tri_pt1 ?t)) (px (tri_pt1 ?t)) = Some x01"
       "interpolate (py (tri_pt1 ?t)) (px (tri_pt1 ?t)) (py (tri_pt2 ?t)) (px (tri_pt2 ?t)) = Some x12"
       "interpolate (py (tri_pt0 ?t)) (px (tri_pt0 ?t)) (py (tri_pt2 ?t)) (px (tri_pt2 ?t)) = Some x02"
    by (simp add: Triangle_draw_unfold Let_def split: option.splits)
  show ?thesis
  proof (cases "x02 ! (length (butlast x01 @ x12) div 2) < (butlast x01 @ x12) ! (length (butlast x01 @ x12) div 2)")
    case True
    with False assms i have "tri_loop_y scn (tri_c ?t) x02 (butlast x01 @ x12)
       (py (tri_pt0 ?t)) (py (tri_pt2 ?t)) (py (tri_pt0 ?t)) s = Some s'"
      by (simp add: Triangle_draw_unfold Let_def split: option.splits if_splits)
    then show ?thesis by blast
  next
    case c: False
    with False assms i have "tri_loop_y scn (tri_c ?t) (butlast x01 @ x12) x02
       (py (tri_pt0 ?t)) (py (tri_pt2 ?t)) (py (tri_pt0 ?t)) s = Some s'"
      by (simp add: Triangle_draw_unfold Let_def split: option.splits if_splits)
    then show ?thesis by blast
  qed
qed

lemma Triangle_draw_preserves:
  assumes step: "\<And>s x y c e s'. P s \<Longrightarrow> drawPixel scn s x y c = Some (e, s') \<Longrightarrow> P s'"
    and "P s" and "Triangle_draw scn t s = Some (e, s')"
  shows "P s'"
proof -
  from Triangle_draw_Some [OF assms(3)] show ?thesis
  proof
    assume "s' = s" with assms(2) show ?thesis by simp
  next
    assume "\<exists>xl xr. tri_loop_y scn (tri_c (sortVertices t)) xl xr
     (py (tri_pt0 (sortVertices t))) (py (tri_pt2 (sortVertices t)))
     (py (tri_pt0 (sortVertices t))) s = Some s'"
    then obtain xl xr where l: "tri_loop_y scn (tri_c (sortVertices t)) xl xr
     (py (tri_pt0 (sortVertices t))) (py (tri_pt2 (sortVertices t)))
     (py (tri_pt0 (sortVertices t))) s = Some s'" by blast
    show ?thesis
      by (rule tri_loop_y_preserves [where P = P and scn = scn, OF _ assms(2) l]) (rule step; assumption)
  qed
qed

section \<open>The canvas invariant\<close>

lemma cells_valid_putPixel:
  assumes "cells_valid d" "\<not> colorUnknown c"
  shows "cells_valid (putPixel d x y c)"
proof -
  have col: "list_all (\<lambda>c. \<not> colorUnknown c) (col[j := c])"
    if "list_all (\<lambda>c. \<not> colorUnknown c) col" for col :: "Color list" and j
    using that assms(2) by (cases "j < length col") (auto simp: list_all_length nth_list_update)
  have "list_all (\<lambda>c. \<not> colorUnknown c) (m[i := (m ! i)[j := c]] ! n)"
    if m: "list_all (list_all (\<lambda>c. \<not> colorUnknown c)) m" and n: "n < length m"
    for m :: "Color list list" and i j n
  proof (cases "n = i")
    case True
    from m n True have "list_all (\<lambda>c. \<not> colorUnknown c) (m ! i)" by (simp add: list_all_length)
    from col [OF this] n True show ?thesis by simp
  next
    case False
    with m n show ?thesis by (simp add: list_all_length)
  qed
  with assms(1) show ?thesis
    by (simp add: cells_valid_def putPixel_def list_all_length [of "list_all _"])
qed

lemma Display_drawPixel_inv:
  assumes "wf_Display d \<and> cells_valid d" "drawPixel Display_screen d x y c = Some (e, d')"
  shows "wf_Display d' \<and> cells_valid d'"
proof -
  from assms(2) have "d' = d \<or> (\<not> colorUnknown c \<and> d' = putPixel d x y c)"
    by (auto simp: Display_screen_def Display_drawPixel_def putPixel_def split: if_splits)
  with assms(1) show ?thesis by (auto simp: wf_putPixel cells_valid_putPixel)
qed

lemma clearScreen_inv: "wf_Display d \<Longrightarrow> wf_Display (clearScreen d) \<and> cells_valid (clearScreen d)"
  by (auto simp: wf_Display_def cells_valid_def clearScreen_def list_all_iff)

lemma initialize_inv:
  "initialize w h = Some d \<Longrightarrow> wf_Display d \<and> cells_valid d \<and> maxX d = w \<and> maxY d = h"
  by (auto simp: initialize_def wf_Display_def cells_valid_def list_all_iff split: if_splits)

lemma apply_operation_inv:
  assumes "wf_Display d \<and> cells_valid d" "apply_operation d operation = Some d'"
  shows "wf_Display d' \<and> cells_valid d'"
proof (cases operation)
  case (OpDrawPixel x y c)
  with assms(2) obtain e where "drawPixel Display_screen d x y c = Some (e, d')"
    by (auto simp: Display_screen_def)
  from Display_drawPixel_inv [OF assms(1) this] show ?thesis .
next
  case OpClearScreen
  with assms clearScreen_inv [of d] show ?thesis by auto
next
  case (OpRectangle r)
  with assms(2) obtain e where "Rectangle_draw Display_screen r d = Some (e, d')" by auto
  from Rectangle_draw_preserves [where P = "\<lambda>d. wf_Display d \<and> cells_valid d", OF _ assms(1) this]
  show ?thesis using Display_drawPixel_inv by blast
next
  case (OpTriangle t)
  with assms(2) obtain e where "Triangle_draw Display_screen t d = Some (e, d')" by auto
  from Triangle_draw_preserves [where P = "\<lambda>d. wf_Display d \<and> cells_valid d", OF _ assms(1) this]
  show ?thesis using Display_drawPixel_inv by blast
next
  case (OpCircle c)
  with assms(2) obtain e where "Circle_draw Display_screen c d = Some (e, d')" by auto
  from Circle_draw_preserves [where P = "\<lambda>d. wf_Display d \<and> cells_valid d", OF _ assms(1) this]
  show ?thesis using Display_drawPixel_inv by blast
qed

lemma run_inv:
  "wf_Display d \<and> cells_valid d \<Longrightarrow> run d ops = Some d' \<Longrightarrow> wf_Display d' \<and> cells_valid d'"
proof (induction ops arbitrary: d)
  case Nil
  then show ?case by simp
next
  case (Cons operation ops)
  from Cons.prems(2) obtain d1 where a: "apply_operation d operation = Some d1"
    and r: "run d1 ops = Some d'"
    by (auto split: option.splits)
  from apply_operation_inv [OF Cons.prems(1) a] Cons.IH r show ?case by blast
qed

lemma getPixel_valid:
  assumes "wf_Display d" "cells_valid d"
  shows "Display_getPixel d x y \<noteq> Some (c, Some invalidColor)"
    and "inCanvas d x y \<Longrightarrow> Display_getPixel d x y = Some (pixel d x y, None) \<and> \<not> colorUnknown (pixel d x y)"
proof -
  have v: "\<not> colorUnknown (matrix d ! nat x ! nat y)"
    if "nat x < length (matrix d)" "nat y < length (matrix d ! nat x)"
    using that assms(2) by (simp add: cells_valid_def list_all_length)
  then show "Display_getPixel d x y \<noteq> Some (c, Some invalidColor)"
    by (auto simp: Display_getPixel_def Let_def)
  assume ic: "inCanvas d x y"
  with assms(1) have lx: "nat x < length (matrix d)"
    by (auto simp: wf_Display_def inCanvas_def)
  with ic assms(1) have ly: "nat y < length (matrix d ! nat x)"
    by (auto simp: wf_Display_def inCanvas_def list_all_length)
  from v [OF lx ly] lx ly ic
  show "Display_getPixel d x y = Some (pixel d x y, None) \<and> \<not> colorUnknown (pixel d x y)"
    by (auto simp: Display_getPixel_def Let_def pixel_def inCanvas_def)
qed

text \<open>
  C8.  Start from a canvas made by \<open>initialize\<close> and apply any sequence of \<open>drawPixel\<close>,
  \<open>clearScreen\<close> and shape \<open>draw\<close> calls that runs to its end: every cell of the grid
  then holds a colour of the palette, so \<open>getPixel\<close> never returns \<open>invalidColor\<close>, and at
  in-bounds coordinates it returns the stored colour with a \<open>nil\<close> error.
\<close>

theorem cells_always_valid:
  assumes "initialize width height = Some d0" and "run d0 ops = Some d"
  shows "cells_valid d \<and>
         (\<forall>x y c. Display_getPixel d x y \<noteq> Some (c, Some invalidColor)) \<and>
         (\<forall>x y. inCanvas d x y \<longrightarrow>
            Display_getPixel d x y = Some (pixel d x y, None) \<and> \<not> colorUnknown (pixel d x y))"
proof -
  from initialize_inv [OF assms(1)] have "wf_Display d0 \<and> cells_valid d0" by simp
  from run_inv [OF this assms(2)] have i: "wf_Display d" "cells_valid d" by simp_all
  from getPixel_valid [OF i] i(2) show ?thesis by blast
qed

theorem cells_always_valid_witness:
  "initialize 10 10 = Some canvas10 \<and>
   run canvas10 [OpCircle circ_1, OpRectangle rect_1,
                 OpDrawPixel 1 1 red, OpClearScreen] = Some canvas10 \<and>
   cells_valid canvas10 \<and>
   Display_getPixel canvas10 3 4 = Some (white, None)"
proof -
  have h1: "initialize 10 10 = Some canvas10" by code_simp
  have h2: "run canvas10 [OpCircle circ_1, OpRectangle rect_1,
                 OpDrawPixel 1 1 red, OpClearScreen] = Some canvas10" by code_simp
  have p: "inCanvas canvas10 3 4" "pixel canvas10 3 4 = white" by code_simp+
  from cells_always_valid [OF h1 h2] h1 h2 p show ?thesis by simp
qed

section \<open>Horizontal edges\<close>

text \<open>
  Whenever two vertices of a triangle that passes both checks share their \<open>y\<close>, one of the
  three calls of \<open>interpolate\<close> that \<open>draw\<close> makes has \<open>l1 = l0\<close>: \<open>draw\<close> divides by the
  float zero, on every screen.
\<close>

lemma f64_of_int_0 [simp]: "f64_of_int 0 = Finite 0"
  by (simp add: f64_of_int_def fl_def)

lemma horizontal_edge_zero_divisor:
  assumes "\<not> outOfBounds (tri_pt0 tri) scn s" "\<not> outOfBounds (tri_pt1 tri) scn s"
    "\<not> outOfBounds (tri_pt2 tri) scn s" "\<not> colorUnknown (tri_c tri)"
    and "py (tri_pt0 tri) = py (tri_pt1 tri) \<or> py (tri_pt1 tri) = py (tri_pt2 tri) \<or>
         py (tri_pt0 tri) = py (tri_pt2 tri)"
  shows "\<exists>num. (num, Finite 0) \<in> set (fst (Triangle_draw_traced scn tri s))"
proof -
  let ?t = "sortVertices tri"
  have ys: "py (tri_pt0 ?t) = py (tri_pt1 ?t) \<or> py (tri_pt1 ?t) = py (tri_pt2 ?t) \<or>
         py (tri_pt0 ?t) = py (tri_pt2 ?t)"
    using assms(5) by (auto simp: sortVertices_def Let_def)
  have tr: "fst (Triangle_draw_traced scn tri s) =
      [fst (interpolate_traced (py (tri_pt0 ?t)) (px (tri_pt0 ?t)) (py (tri_pt1 ?t)) (px (tri_pt1 ?t))),
       fst (interpolate_traced (py (tri_pt1 ?t)) (px (tri_pt1 ?t)) (py (tri_pt2 ?t)) (px (tri_pt2 ?t))),
       fst (interpolate_traced (py (tri_pt0 ?t)) (px (tri_pt0 ?t)) (py (tri_pt2 ?t)) (px (tri_pt2 ?t)))]"
    using assms(1-4) by (simp add: Triangle_draw_traced_def Let_def split: prod.splits)
  have d: "fst (interpolate_traced l0 d0 l1 d1) = (f64_of_int (d1 - d0), f64_of_int (l1 - l0))"
    for l0 d0 l1 d1
    by (simp add: interpolate_traced_def Let_def)
  from ys show ?thesis unfolding tr d by auto
qed

text \<open>
  C9.  There is a triangle with in-bounds vertices, a colour of the palette and a
  horizontal edge for which \<open>draw\<close> performs, inside \<open>interpolate\<close>, a division whose
  divisor \<open>float64(l1 - l0)\<close> is zero.  It is a float division, so its value is an infinity
  and nothing panics; the slope is not used when the edge has a single row, and \<open>draw\<close>
  returns \<open>nil\<close>.
\<close>

theorem Triangle_draw_divides_by_zero:
  "\<exists>tri. \<not> outOfBounds (tri_pt0 tri) Display_screen canvas10 \<and>
         \<not> outOfBounds (tri_pt1 tri) Display_screen canvas10 \<and>
         \<not> outOfBounds (tri_pt2 tri) Display_screen canvas10 \<and>
         \<not> colorUnknown (tri_c tri) \<and>
         py (tri_pt0 tri) = py (tri_pt1 tri) \<and>
         (\<exists>num. (num, Finite 0) \<in> set (fst (Triangle_draw_traced Display_screen tri canvas10)) \<and>
                f64_div num (Finite 0) = PosInf) \<and>
         map_option fst (Triangle_draw Display_screen tri canvas10) = Some None"
proof -
  have 1: "\<not> outOfBounds (tri_pt0 tri_flat) Display_screen canvas10"
    "\<not> outOfBounds (tri_pt1 tri_flat) Display_screen canvas10"
    "\<not> outOfBounds (tri_pt2 tri_flat) Display_screen canvas10"
    by (simp_all add: outOfBounds_def Display_screen_def Display_getMaxXY_def canvas10_def tri_flat_def)
  have 2: "\<not> colorUnknown (tri_c tri_flat)" "py (tri_pt0 tri_flat) = py (tri_pt1 tri_flat)"
    by (simp_all add: tri_flat_def)
  have 3: "fst (Triangle_draw_traced Display_screen tri_flat canvas10) =
      [(Finite 4, Finite 0), (Finite (- 2), Finite 4), (Finite 2, Finite 4)]"
    by code_simp
  have 4: "f64_div (Finite 4) (Finite 0) = PosInf" by simp
  have 5: "map_option fst (Triangle_draw Display_screen tri_flat canvas10) = Some None"
    by code_simp
  show ?thesis
    apply (rule exI [of _ tri_flat])
    using 1 2 4 5 by (intro conjI exI [of _ "Finite 4"]) (simp_all add: 3)
qed

section \<open>The exported image\<close>

lemma screenShot_loop_x_stop:
  "\<not> x < maxX d \<Longrightarrow> screenShot_loop_x fs d y x file = Some (None, file)"
  by (subst screenShot_loop_x.simps) simp

lemma screenShot_loop_x_memory_step:
  assumes "x < maxX d" "0 \<le> x" "nat x < length (matrix d)" "0 \<le> y"
    "nat y < length (matrix d ! nat x)"
  shows "screenShot_loop_x memory_fs d y x file =
     screenShot_loop_x memory_fs d y (x + 1)
       (file @ (if x > 0 then '' '' else []) @ ppm_pixel d y x)"
  using assms
  by (subst screenShot_loop_x.simps) (simp add: memory_fs_def Let_def ppm_pixel_def pixel_def)

lemma screenShot_loop_y_stop:
  "\<not> y < maxY d \<Longrightarrow> screenShot_loop_y fs d y file = Some (None, file)"
  by (subst screenShot_loop_y.simps) simp

lemma screenShot_loop_y_step:
  "y < maxY d \<Longrightarrow> screenShot_loop_y fs d y file =
     (case screenShot_loop_x fs d y 0 file of
        None \<Rightarrow> None
      | Some (Some err, file1) \<Rightarrow> Some (Some err, file1)
      | Some (None, file1) \<Rightarrow>
          (case fs_write fs file1 newline of
             None \<Rightarrow> Some (Some fileError, file1)
           | Some file2 \<Rightarrow> screenShot_loop_y fs d (y + 1) file2))"
  by (subst screenShot_loop_y.simps) simp

lemma screenShot_loop_x_memory:
  assumes "wf_Display d" "0 \<le> y" "y < maxY d" "0 \<le> x"
  shows "screenShot_loop_x memory_fs d y x buf =
     Some (None, buf @ concat (map (\<lambda>i. (if i > 0 then '' '' else []) @ ppm_pixel d y i)
                                  [x..maxX d - 1]))"
  using assms(4)
proof (induction "nat (maxX d - x)" arbitrary: x buf)
  case 0
  then have "\<not> x < maxX d" by simp
  then show ?case by (simp add: screenShot_loop_x_stop)
next
  case (Suc n)
  then have lt: "x < maxX d" by linarith
  with Suc.prems assms(1) have lx: "nat x < length (matrix d)"
    by (simp add: wf_Display_def)
  with assms(1,2,3) have ly: "nat y < length (matrix d ! nat x)"
    by (simp add: wf_Display_def list_all_length)
  have n: "n = nat (maxX d - (x + 1))" using Suc.hyps(2) by linarith
  have p: "0 \<le> x + 1" using Suc.prems by simp
  have u: "[x..maxX d - 1] = x # [x + 1..maxX d - 1]" using lt by (rule upto_step)
  show ?case
    unfolding screenShot_loop_x_memory_step [OF lt Suc.prems lx assms(2) ly]
      Suc.hyps(1) [OF n p] u
    by simp
qed

lemma join_Cons: "join sep (x # xs) = x @ concat (map (\<lambda>z. sep @ z) xs)"
  by (induction xs arbitrary: x) simp_all

lemma row_text:
  "concat (map (\<lambda>i. (if i > 0 then sep else []) @ f i) [0..n - 1]) = join sep (map f [0..n - 1])"
proof (cases "0 < n")
  case False
  then show ?thesis by simp
next
  case True
  then have u: "[0..n - 1] = 0 # [1..n - 1]" using upto_step [of 0 n] by simp
  have "concat (map (\<lambda>i. (if 0 < i then sep else []) @ f i) [1..n - 1]) =
      concat (map (\<lambda>i. sep @ f i) [1..n - 1])"
    by (rule arg_cong [where f = concat], rule map_cong) auto
  then show ?thesis by (simp add: u join_Cons comp_def)
qed

lemma screenShot_loop_y_memory:
  assumes "wf_Display d" "0 \<le> y"
  shows "screenShot_loop_y memory_fs d y buf =
     Some (None, buf @ concat (map (ppm_row d) [y..maxY d - 1]))"
  using assms(2)
proof (induction "nat (maxY d - y)" arbitrary: y buf)
  case 0
  then have "\<not> y < maxY d" by simp
  then show ?case by (simp add: screenShot_loop_y_stop)
next
  case (Suc n)
  then have lt: "y < maxY d" by linarith
  have n: "n = nat (maxY d - (y + 1))" using Suc.hyps(2) by linarith
  have p: "0 \<le> y + 1" using Suc.prems by simp
  have u: "[y..maxY d - 1] = y # [y + 1..maxY d - 1]" using lt by (rule upto_step)
  have w: "fs_write memory_fs file1 str = Some (file1 @ str)" for file1 str
    by (simp add: memory_fs_def)
  show ?case
    unfolding screenShot_loop_y_step [OF lt]
      screenShot_loop_x_memory [OF assms(1) Suc.prems lt order_refl] row_text
      u
    by (simp add: w Suc.hyps(1) [OF n p] ppm_row_def)
qed

text \<open>
  C4.  On a file system where nothing fails, \<open>screenShot\<close> of a well-formed canvas returns
  \<open>nil\<close> and the file it has written is exactly the text of the specification: the three
  header lines \<open>P3\<close>, \<open>maxX maxY\<close> and \<open>255\<close>, then for each \<open>y\<close> from \<open>0\<close> one line with
  the triples of the pixels \<open>matrix[0][y]\<close> to \<open>matrix[maxX - 1][y]\<close>, separated by single
  spaces, with no separator after the last one.
\<close>

theorem screenShot_writes_ppm:
  assumes "wf_Display d"
  shows "screenShot memory_fs d f = Some (None, Some (ppm_text d))"
  using screenShot_loop_y_memory [OF assms order_refl]
  by (simp add: screenShot_def memory_fs_def ppm_text_def)

theorem screenShot_writes_ppm_witness:
  "wf_Display canvas2 \<and>
   screenShot memory_fs canvas2 ''out'' =
     Some (None, Some (''P3'' @ newline @ ''2 2'' @ newline @ ''255'' @ newline @
                       ''255 0 0 0 255 0'' @ newline @
                       ''255 255 255 255 255 255'' @ newline))"
proof -
  have h: "wf_Display canvas2" by (simp add: wf_Display_def canvas2_def)
  have "ppm_text canvas2 = ''P3'' @ newline @ ''2 2'' @ newline @ ''255'' @ newline @
                       ''255 0 0 0 255 0'' @ newline @
                       ''255 255 255 255 255 255'' @ newline"
    by code_simp
  with screenShot_writes_ppm [OF h, of "''out''"] h show ?thesis by simp
qed

section \<open>Doubles are fixed points of rounding\<close>




lemma pow2_0 [simp]: "pow2 0 = 1"
  by (simp add: pow2_def)

lemma pow2_nonzero [simp]: "pow2 e \<noteq> 0"
  using pow2_pos [of e] by (simp del: pow2_pos)

lemma pow2_abs [simp]: "\<bar>pow2 e\<bar> = pow2 e"
  using pow2_pos [of e] by (simp del: pow2_pos)





section \<open>Interpolating an edge\<close>










end
